theory Spec2Isabelle
  imports Main "HOL-Library.AList" "HOL-Library.Multiset" "HOL-Library.Word"
begin

section \<open>The source model built from compiler output (compiler-to-model.ts)\<close>

text \<open>
  The development embeds \<^verbatim>\<open>compiler-to-model.ts\<close> of hardhat-core: the walk over the
  compiler's AST that builds source files, contracts and functions, the second pass that
  resolves inheritance, and the pass that decodes the bytecodes of every contract.

  JavaScript objects that are shared and mutated (\<^verbatim>\<open>SourceFile\<close>, \<^verbatim>\<open>Contract\<close>) live in
  an explicit store. An object is addressed by the place of the input that creates it: a
  \<^verbatim>\<open>SourceFile\<close> by its source name (a key of the object \<^verbatim>\<open>compilerOutput.sources\<close>, so no
  two sources share it), a \<^verbatim>\<open>Contract\<close> by its source name and the position of its
  node among the top-level nodes of that source. Each such place runs \<^verbatim>\<open>new\<close> once, so
  two objects never share an address.
  A JavaScript \<^verbatim>\<open>Map\<close> is an association list in insertion order; \<^verbatim>\<open>set\<close> is
  \<^const>\<open>AList.update\<close> (an existing key keeps its position) and \<^verbatim>\<open>get\<close> is
  \<^const>\<open>map_of\<close>. A \<^verbatim>\<open>TypeError\<close> raised by reading a property of \<^verbatim>\<open>undefined\<close> is a
  value of type \<open>error\<close>.
\<close>

subsection \<open>Entities of the model\<close>

type_synonym Buffer = "8 word list"

type_synonym faddr = string
type_synonym caddr = "string \<times> nat"

datatype ContractType = CONTRACT | LIBRARY

datatype ContractFunctionType =
  CONSTRUCTOR | FUNCTION | FALLBACK | RECEIVE | GETTER | MODIFIER | FREE_FUNCTION

datatype ContractFunctionVisibility = PRIVATE | INTERNAL | PUBLIC | EXTERNAL

datatype error =
  TypeNameUndefined
| SourceInputUndefined
| ContractOutputUndefined
| LocationUndefined
| LinearizedBaseContractsUndefined
| NoObject

record SourceLocation =
  sl_file :: faddr
  sl_offset :: nat
  sl_length :: nat

record ContractFunction =
  cf_name :: string
  cf_type :: ContractFunctionType
  cf_location :: "SourceLocation option"
  cf_contract :: "caddr option"
  cf_visibility :: "ContractFunctionVisibility option"
  cf_isPayable :: "bool option"
  cf_selector :: "Buffer option"
  cf_paramTypes :: "string list option"

record CustomError =
  ce_selector :: Buffer
  ce_name :: string
  ce_paramTypes :: "string list"

record SourceFile =
  sf_sourceName :: string
  sf_content :: string
  sf_functions :: "ContractFunction list"

record Contract =
  c_name :: string
  c_type :: ContractType
  c_location :: "SourceLocation option"
  c_localFunctions :: "ContractFunction list"
  c_linearizedBaseContracts :: "caddr list"
  c_customErrors :: "CustomError list"

datatype JumpType = NOT_JUMP | INTO_FUNCTION | OUTOF_FUNCTION | INTERNAL_JUMP

record Instruction =
  in_pc :: nat
  in_opcode :: "8 word"
  in_jumpType :: JumpType
  in_pushData :: "Buffer option"
  in_location :: "SourceLocation option"

record ImmutableReference =
  ir_start :: nat
  ir_length :: nat

record Bytecode =
  bc_contract :: caddr
  bc_isDeployment :: bool
  bc_normalizedCode :: Buffer
  bc_instructions :: "Instruction list"
  bc_libraryAddressPositions :: "nat list"
  bc_immutableReferences :: "ImmutableReference list"
  bc_compilerVersion :: string

subsection \<open>Compiler input and output\<close>

text \<open>An AST \<^verbatim>\<open>src\<close> string \<^verbatim>\<open>start:length:fileIndex\<close>, as its three numbers.\<close>

record Src =
  src_start :: nat
  src_length :: nat
  src_fileIndex :: nat

record TypeName =
  tn_nodeType :: string
  tn_typeString :: string
  tn_name :: string

record Parameter =
  p_typeName :: "TypeName option"
  p_typeString :: "string option"

record FunctionDefinition =
  fd_name :: string
  fd_implemented :: "bool option"
  fd_kind :: "string option"
  fd_src :: Src
  fd_visibility :: string
  fd_stateMutability :: string
  fd_functionSelector :: "string option"
  fd_parameters :: "Parameter list"

record ModifierDefinition =
  md_name :: string
  md_src :: Src

record VariableDeclaration =
  vd_name :: string
  vd_src :: Src
  vd_visibility :: string
  vd_functionSelector :: "string option"

datatype ContractMember =
  FunctionDefinitionNode FunctionDefinition
| ModifierDefinitionNode ModifierDefinition
| VariableDeclarationNode VariableDeclaration
| OtherMember string

record ContractDefinition =
  cd_id :: nat
  cd_name :: string
  cd_contractKind :: "string option"
  cd_src :: Src
  cd_linearizedBaseContracts :: "nat list option"
  cd_nodes :: "ContractMember list"

datatype SourceUnitNode =
  ContractDefinitionNode ContractDefinition
| TopLevelFunctionNode FunctionDefinition
| OtherNode string

record AbiInput =
  ai_type :: string

record AbiEntry =
  ae_type :: string
  ae_name :: "string option"
  ae_inputs :: "AbiInput list option"

type_synonym ContractAbi = "AbiEntry list"

record CompilerOutputBytecode =
  cb_object :: string
  cb_sourceMap :: string
  cb_immutableReferences :: "(string \<times> ImmutableReference list) list option"

record CompilerOutputContract =
  co_abi :: ContractAbi
  co_bytecode :: CompilerOutputBytecode
  co_deployedBytecode :: CompilerOutputBytecode

record CompilerOutputSource =
  cs_id :: nat
  cs_nodes :: "SourceUnitNode list"

text \<open>
  \<^verbatim>\<open>compilerOutput.sources\<close> and \<^verbatim>\<open>compilerOutput.contracts\<close> are objects read with
  \<^verbatim>\<open>Object.entries\<close>: lists of entries in enumeration order, with pairwise different keys.
\<close>

record CompilerOutput =
  out_sources :: "(string \<times> CompilerOutputSource) list"
  out_contracts :: "(string \<times> (string \<times> CompilerOutputContract) list) list"

type_synonym CompilerInput = "(string \<times> string) list"

subsection \<open>The state of a model build\<close>

text \<open>
  The two maps that \<^verbatim>\<open>createModelsAndDecodeBytecodes\<close> creates, the map of ancestor ids
  that \<^verbatim>\<open>createSourcesModelFromAst\<close> creates, the store of the objects, and the messages
  passed to \<^verbatim>\<open>log\<close>.
\<close>

record State =
  st_files :: "faddr \<rightharpoonup> SourceFile"
  st_contracts :: "caddr \<rightharpoonup> Contract"
  fileIdToSourceFile :: "(nat \<times> faddr) list"
  contractIdToContract :: "(nat \<times> caddr) list"
  contractIdToLinearizedBaseContractIds :: "(nat \<times> nat list option) list"
  st_log :: "string list"

definition emptyState :: State where
  "emptyState =
     \<lparr>st_files = Map.empty, st_contracts = Map.empty, fileIdToSourceFile = [],
      contractIdToContract = [], contractIdToLinearizedBaseContractIds = [], st_log = []\<rparr>"

subsection \<open>Functions imported from other packages\<close>

text \<open>
  The functions that \<^verbatim>\<open>compiler-to-model.ts\<close> imports from \<^verbatim>\<open>@nomicfoundation/edr\<close>,
  \<^verbatim>\<open>ethereumjs-abi\<close>, \<^verbatim>\<open>./library-utils\<close>, \<^verbatim>\<open>./source-maps\<close> and \<^verbatim>\<open>./model\<close> are
  parameters of the development: every theorem holds for whatever they compute.
  \<^verbatim>\<open>decodeInstructions\<close> receives the file map as its lookup function.
\<close>

text \<open>
  Modelled from the spec: \<^verbatim>\<open>processModifierDefinitionAstNode\<close> and
  \<^verbatim>\<open>processVariableDeclarationAstNode\<close> (imported from \<^verbatim>\<open>@nomicfoundation/edr\<close>). Nested
  modifier and public state variable getter nodes are modelled analogously to function
  definitions: the location of the node is resolved from its \<^verbatim>\<open>src\<close>, and the function
  entity, if one is modelled, is added to the contract and to the file. Which entity that
  is, is a parameter (\<open>modifierDefinitionFunction\<close>, \<open>variableDeclarationFunction\<close>).
\<close>

record Ext =
  astVisibilityToVisibility :: "string \<Rightarrow> ContractFunctionVisibility"
  isContractType :: "Parameter \<Rightarrow> bool"
  isEnumType :: "Parameter \<Rightarrow> bool"
  toCanonicalAbiType :: "string \<Rightarrow> string"
  methodID :: "string \<Rightarrow> string list \<Rightarrow> Buffer"
  customErrorFromABI :: "string option \<Rightarrow> AbiInput list option \<Rightarrow> CustomError option"
  getLibraryAddressPositions :: "CompilerOutputBytecode \<Rightarrow> nat list"
  normalizeCompilerOutputBytecode :: "string \<Rightarrow> nat list \<Rightarrow> Buffer"
  decodeInstructions ::
    "Buffer \<Rightarrow> string \<Rightarrow> (nat \<Rightarrow> faddr option) \<Rightarrow> bool \<Rightarrow> Instruction list"
  modifierDefinitionFunction ::
    "ModifierDefinition \<Rightarrow> SourceLocation option \<Rightarrow> caddr \<Rightarrow> ContractFunction option"
  variableDeclarationFunction ::
    "VariableDeclaration \<Rightarrow> SourceLocation option \<Rightarrow> caddr \<Rightarrow> AbiEntry option
      \<Rightarrow> ContractFunction option"
  correctSelectors :: "Bytecode list \<Rightarrow> CompilerOutput \<Rightarrow> State \<Rightarrow> State"

text \<open>
  Modelled from the spec: the methods of \<^verbatim>\<open>SourceFile\<close> and \<^verbatim>\<open>Contract\<close> (\<^verbatim>\<open>./model\<close>,
  not part of the sources at hand). The data model gives a file its list of functions and
  a contract its ordered list of local functions, its ordered list of linearized ancestor
  contracts and its custom errors; each \<^verbatim>\<open>add\<close> method appends to the list it names.
  A method call on an address that holds no object does nothing (no such call occurs:
  every address handed out holds its object).
\<close>

definition addFunction :: "faddr \<Rightarrow> ContractFunction \<Rightarrow> State \<Rightarrow> State" where
  "addFunction file func s =
     (case st_files s file of
        None \<Rightarrow> s
      | Some f \<Rightarrow>
          s\<lparr>st_files := (st_files s)(file \<mapsto> f\<lparr>sf_functions := sf_functions f @ [func]\<rparr>)\<rparr>)"

definition addLocalFunction :: "caddr \<Rightarrow> ContractFunction \<Rightarrow> State \<Rightarrow> State" where
  "addLocalFunction contract func s =
     (case st_contracts s contract of
        None \<Rightarrow> s
      | Some c \<Rightarrow>
          s\<lparr>st_contracts :=
              (st_contracts s)(contract \<mapsto> c\<lparr>c_localFunctions := c_localFunctions c @ [func]\<rparr>)\<rparr>)"

definition addNextLinearizedBaseContract :: "caddr \<Rightarrow> caddr \<Rightarrow> State \<Rightarrow> State" where
  "addNextLinearizedBaseContract contract baseContract s =
     (case st_contracts s contract of
        None \<Rightarrow> s
      | Some c \<Rightarrow>
          s\<lparr>st_contracts :=
              (st_contracts s)(contract \<mapsto>
                 c\<lparr>c_linearizedBaseContracts := c_linearizedBaseContracts c @ [baseContract]\<rparr>)\<rparr>)"

definition addCustomError :: "caddr \<Rightarrow> CustomError \<Rightarrow> State \<Rightarrow> State" where
  "addCustomError contract customError s =
     (case st_contracts s contract of
        None \<Rightarrow> s
      | Some c \<Rightarrow>
          s\<lparr>st_contracts :=
              (st_contracts s)(contract \<mapsto> c\<lparr>c_customErrors := c_customErrors c @ [customError]\<rparr>)\<rparr>)"

definition log :: "string \<Rightarrow> State \<Rightarrow> State" where
  "log msg s = s\<lparr>st_log := st_log s @ [msg]\<rparr>"

text \<open>
  Modelled from the spec: \<^verbatim>\<open>astSrcToSourceLocation\<close> (imported from
  \<^verbatim>\<open>@nomicfoundation/edr\<close>). A source location is derived from the triple
  \<^verbatim>\<open>start:length:fileIndex\<close>: the owning file is the one registered under the file index,
  and there is no location when no file is registered under it.
\<close>

definition astSrcToSourceLocation :: "Src \<Rightarrow> (nat \<times> faddr) list \<Rightarrow> SourceLocation option" where
  "astSrcToSourceLocation src fileMap =
     (case map_of fileMap (src_fileIndex src) of
        None \<Rightarrow> None
      | Some file \<Rightarrow>
          Some \<lparr>sl_file = file, sl_offset = src_start src, sl_length = src_length src\<rparr>)"

subsection \<open>Selectors\<close>

text \<open>
  \<^verbatim>\<open>Buffer.from(s, "hex")\<close> of Node.js: pairs of hexadecimal digits become bytes; decoding
  stops at the first pair that is not two hexadecimal digits, and a trailing single
  character is dropped.
\<close>

definition hexDigit :: "char \<Rightarrow> nat option" where
  "hexDigit c =
     (let n = (of_char c :: nat) in
      if 48 \<le> n \<and> n \<le> 57 then Some (n - 48)
      else if 97 \<le> n \<and> n \<le> 102 then Some (n - 87)
      else if 65 \<le> n \<and> n \<le> 70 then Some (n - 55)
      else None)"

fun bufferFromHex :: "string \<Rightarrow> Buffer" where
  "bufferFromHex (a # b # rest) =
     (case (hexDigit a, hexDigit b) of
        (Some h, Some l) \<Rightarrow> of_nat (16 * h + l) # bufferFromHex rest
      | _ \<Rightarrow> [])"
| "bufferFromHex _ = []"

definition functionDefinitionKindToFunctionType :: "string option \<Rightarrow> ContractFunctionType" where
  "functionDefinitionKindToFunctionType kind =
     (if kind = Some ''constructor'' then CONSTRUCTOR
      else if kind = Some ''fallback'' then FALLBACK
      else if kind = Some ''receive'' then RECEIVE
      else if kind = Some ''freeFunction'' then FREE_FUNCTION
      else FUNCTION)"

definition contractKindToContractType :: "string option \<Rightarrow> ContractType option" where
  "contractKindToContractType contractKind =
     (if contractKind = Some ''library'' then Some LIBRARY
      else if contractKind = Some ''contract'' then Some CONTRACT
      else None)"

text \<open>
  The loop of \<^verbatim>\<open>astFunctionDefinitionToSelector\<close> over the parameters; \<open>paramTypes\<close> is
  the array it pushes to. Reading \<^verbatim>\<open>typename.nodeType\<close> of a parameter without a
  \<^verbatim>\<open>typeName\<close> raises.
\<close>

fun paramTypesLoop :: "Ext \<Rightarrow> Parameter list \<Rightarrow> string list \<Rightarrow> error + string list" where
  "paramTypesLoop E [] paramTypes = Inr paramTypes"
| "paramTypesLoop E (param # rest) paramTypes =
     (if isContractType E param then paramTypesLoop E rest (paramTypes @ [''address''])
      else if isEnumType E param then paramTypesLoop E rest (paramTypes @ [''uint8''])
      else
        (case p_typeName param of
           None \<Rightarrow> Inl TypeNameUndefined
         | Some typename \<Rightarrow>
             if tn_nodeType typename = ''ArrayTypeName''
                \<or> tn_nodeType typename = ''FunctionTypeName''
                \<or> tn_nodeType typename = ''Mapping''
             then paramTypesLoop E rest (paramTypes @ [tn_typeString typename])
             else paramTypesLoop E rest (paramTypes @ [toCanonicalAbiType E (tn_name typename)])))"

definition astFunctionDefinitionToSelector :: "Ext \<Rightarrow> FunctionDefinition \<Rightarrow> error + Buffer" where
  "astFunctionDefinitionToSelector E functionDefinition =
     (case fd_functionSelector functionDefinition of
        Some functionSelector \<Rightarrow> Inr (bufferFromHex functionSelector)
      | None \<Rightarrow>
          (case paramTypesLoop E (fd_parameters functionDefinition) [] of
             Inl e \<Rightarrow> Inl e
           | Inr paramTypes \<Rightarrow> Inr (methodID E (fd_name functionDefinition) paramTypes)))"

subsection \<open>Function definitions\<close>

text \<open>The callback of \<^verbatim>\<open>functionAbis?.find\<close>: does the ABI entry have the selector?\<close>

definition functionAbiMatches :: "Ext \<Rightarrow> Buffer option \<Rightarrow> AbiEntry \<Rightarrow> bool" where
  "functionAbiMatches E selector functionAbi =
     (case ae_name functionAbi of
        None \<Rightarrow> False
      | Some abiName \<Rightarrow>
          (let functionAbiSelector =
                 methodID E abiName
                   (case ae_inputs functionAbi of
                      None \<Rightarrow> []
                    | Some inputs \<Rightarrow> map ai_type inputs)
           in case selector of
                None \<Rightarrow> False
              | Some sel \<Rightarrow> sel = functionAbiSelector))"

text \<open>
  The selector that \<^verbatim>\<open>processFunctionDefinitionAstNode\<close> gives a function of the given
  type and visibility (the variable \<^verbatim>\<open>selector\<close>, undefined unless assigned).
\<close>

definition selectorOfNode ::
  "Ext \<Rightarrow> FunctionDefinition \<Rightarrow> ContractFunctionType \<Rightarrow> ContractFunctionVisibility
    \<Rightarrow> error + Buffer option" where
  "selectorOfNode E functionDefinitionNode functionType visibility =
     (if functionType = FUNCTION \<and> (visibility = EXTERNAL \<or> visibility = PUBLIC)
      then (case astFunctionDefinitionToSelector E functionDefinitionNode of
              Inl e \<Rightarrow> Inl e
            | Inr sel \<Rightarrow> Inr (Some sel))
      else Inr None)"

text \<open>
  The parameter types taken from the ABI (the variables \<^verbatim>\<open>matchingFunctionAbi\<close> and
  \<^verbatim>\<open>paramTypes\<close>).
\<close>

definition matchingFunctionAbi :: "Ext \<Rightarrow> Buffer option \<Rightarrow> AbiEntry list option \<Rightarrow> AbiEntry option"
  where
  "matchingFunctionAbi E selector functionAbis =
     (case functionAbis of
        None \<Rightarrow> None
      | Some abis \<Rightarrow> find (functionAbiMatches E selector) abis)"

definition paramTypesOfAbi :: "AbiEntry option \<Rightarrow> string list option" where
  "paramTypesOfAbi matching =
     (case matching of
        None \<Rightarrow> None
      | Some functionAbi \<Rightarrow>
          (case ae_inputs functionAbi of
             None \<Rightarrow> None
           | Some inputs \<Rightarrow> Some (map ai_type inputs)))"

text \<open>
  The \<^verbatim>\<open>ContractFunction\<close> that \<^verbatim>\<open>processFunctionDefinitionAstNode\<close> constructs for a node
  that it does not skip.
\<close>

definition newContractFunction ::
  "Ext \<Rightarrow> FunctionDefinition \<Rightarrow> (nat \<times> faddr) list \<Rightarrow> caddr option \<Rightarrow> AbiEntry list option
    \<Rightarrow> error + ContractFunction" where
  "newContractFunction E functionDefinitionNode fileMap contract functionAbis =
     (let functionType = functionDefinitionKindToFunctionType (fd_kind functionDefinitionNode);
          functionLocation = astSrcToSourceLocation (fd_src functionDefinitionNode) fileMap;
          visibility = astVisibilityToVisibility E (fd_visibility functionDefinitionNode)
      in
        case selectorOfNode E functionDefinitionNode functionType visibility of
          Inl e \<Rightarrow> Inl e
        | Inr selector \<Rightarrow>
            (let paramTypes = paramTypesOfAbi (matchingFunctionAbi E selector functionAbis)
             in Inr \<lparr>cf_name = fd_name functionDefinitionNode,
                     cf_type = functionType,
                     cf_location = functionLocation,
                     cf_contract = contract,
                     cf_visibility = Some visibility,
                     cf_isPayable = Some (fd_stateMutability functionDefinitionNode = ''payable''),
                     cf_selector = selector,
                     cf_paramTypes = paramTypes\<rparr>))"

definition processFunctionDefinitionAstNode ::
  "Ext \<Rightarrow> FunctionDefinition \<Rightarrow> caddr option \<Rightarrow> faddr \<Rightarrow> AbiEntry list option \<Rightarrow> State
    \<Rightarrow> error + State" where
  "processFunctionDefinitionAstNode E functionDefinitionNode contract file functionAbis s =
     (if fd_implemented functionDefinitionNode = Some False then Inr s
      else
        (case newContractFunction E functionDefinitionNode (fileIdToSourceFile s) contract
                functionAbis of
           Inl e \<Rightarrow> Inl e
         | Inr contractFunc \<Rightarrow>
             Inr (addFunction file contractFunc
                    (case contract of
                       None \<Rightarrow> s
                     | Some c \<Rightarrow> addLocalFunction c contractFunc s))))"

subsection \<open>Contract definitions\<close>

text \<open>The loop of \<^verbatim>\<open>processContractAstNode\<close> over the nodes of the contract.\<close>

fun processContractNodes ::
  "Ext \<Rightarrow> faddr \<Rightarrow> caddr \<Rightarrow> ContractAbi option \<Rightarrow> ContractMember list \<Rightarrow> State
    \<Rightarrow> error + State" where
  "processContractNodes E file contract contractAbi [] s = Inr s"
| "processContractNodes E file contract contractAbi (FunctionDefinitionNode node # rest) s =
     (let functionAbis =
            (case contractAbi of
               None \<Rightarrow> None
             | Some entries \<Rightarrow>
                 Some (filter (\<lambda>abiEntry. ae_name abiEntry = Some (fd_name node)) entries))
      in case processFunctionDefinitionAstNode E node (Some contract) file functionAbis s of
           Inl e \<Rightarrow> Inl e
         | Inr s' \<Rightarrow> processContractNodes E file contract contractAbi rest s')"
| "processContractNodes E file contract contractAbi (ModifierDefinitionNode node # rest) s =
     processContractNodes E file contract contractAbi rest
       (case modifierDefinitionFunction E node
               (astSrcToSourceLocation (md_src node) (fileIdToSourceFile s)) contract of
          None \<Rightarrow> s
        | Some contractFunc \<Rightarrow>
            addFunction file contractFunc (addLocalFunction contract contractFunc s))"
| "processContractNodes E file contract contractAbi (VariableDeclarationNode node # rest) s =
     (let getterAbi =
            (case contractAbi of
               None \<Rightarrow> None
             | Some entries \<Rightarrow>
                 find (\<lambda>abiEntry. ae_name abiEntry = Some (vd_name node)) entries)
      in processContractNodes E file contract contractAbi rest
           (case variableDeclarationFunction E node
                   (astSrcToSourceLocation (vd_src node) (fileIdToSourceFile s)) contract
                   getterAbi of
              None \<Rightarrow> s
            | Some contractFunc \<Rightarrow>
                addFunction file contractFunc (addLocalFunction contract contractFunc s)))"
| "processContractNodes E file contract contractAbi (OtherMember nodeType # rest) s =
     processContractNodes E file contract contractAbi rest s"

text \<open>
  \<^verbatim>\<open>processContractAstNode\<close>; \<open>contract\<close> is the address of the object that
  \<^verbatim>\<open>new Contract\<close> creates.
\<close>

definition processContractAstNode ::
  "Ext \<Rightarrow> faddr \<Rightarrow> caddr \<Rightarrow> ContractDefinition \<Rightarrow> ContractType \<Rightarrow> ContractAbi option \<Rightarrow> State
    \<Rightarrow> error + State" where
  "processContractAstNode E file contract contractNode contractType contractAbi s =
     (let contractLocation = astSrcToSourceLocation (cd_src contractNode) (fileIdToSourceFile s);
          s1 = s\<lparr>st_contracts := (st_contracts s)(contract \<mapsto>
                    \<lparr>c_name = cd_name contractNode, c_type = contractType,
                     c_location = contractLocation, c_localFunctions = [],
                     c_linearizedBaseContracts = [], c_customErrors = []\<rparr>)\<rparr>;
          s2 = s1\<lparr>contractIdToContract :=
                    AList.update (cd_id contractNode) contract (contractIdToContract s1)\<rparr>;
          s3 = s2\<lparr>contractIdToLinearizedBaseContractIds :=
                    AList.update (cd_id contractNode) (cd_linearizedBaseContracts contractNode)
                      (contractIdToLinearizedBaseContractIds s2)\<rparr>
      in processContractNodes E file contract contractAbi (cd_nodes contractNode) s3)"

subsection \<open>Sources\<close>

text \<open>
  The loop of \<^verbatim>\<open>createSourcesModelFromAst\<close> over \<^verbatim>\<open>source.ast.nodes\<close>; \<open>i\<close> is the
  position of the next node. \<open>contractToAbi\<close> is
  \<^verbatim>\<open>sourceNameToContractToAbi.get(sourceName)\<close>, whose entries give the ABI of a contract.
\<close>

fun processSourceNodes ::
  "Ext \<Rightarrow> faddr \<Rightarrow> (string \<times> CompilerOutputContract) list option \<Rightarrow> nat
    \<Rightarrow> SourceUnitNode list \<Rightarrow> State \<Rightarrow> error + State" where
  "processSourceNodes E file contractToAbi i [] s = Inr s"
| "processSourceNodes E file contractToAbi i (ContractDefinitionNode node # rest) s =
     (case contractKindToContractType (cd_contractKind node) of
        None \<Rightarrow> processSourceNodes E file contractToAbi (Suc i) rest s
      | Some contractType \<Rightarrow>
          (let contractAbi =
                 (case contractToAbi of
                    None \<Rightarrow> None
                  | Some entries \<Rightarrow> map_option co_abi (map_of entries (cd_name node)))
           in case processContractAstNode E file (file, i) node contractType contractAbi s of
                Inl e \<Rightarrow> Inl e
              | Inr s' \<Rightarrow> processSourceNodes E file contractToAbi (Suc i) rest s'))"
| "processSourceNodes E file contractToAbi i (TopLevelFunctionNode node # rest) s =
     (case processFunctionDefinitionAstNode E node None file None s of
        Inl e \<Rightarrow> Inl e
      | Inr s' \<Rightarrow> processSourceNodes E file contractToAbi (Suc i) rest s')"
| "processSourceNodes E file contractToAbi i (OtherNode nodeType # rest) s =
     processSourceNodes E file contractToAbi (Suc i) rest s"

text \<open>
  One round of the loop over \<^verbatim>\<open>Object.entries(compilerOutput.sources)\<close>. Reading
  \<^verbatim>\<open>content\<close> of a source that the compiler input does not have raises.
\<close>

definition processSource ::
  "Ext \<Rightarrow> CompilerOutput \<Rightarrow> CompilerInput \<Rightarrow> string \<times> CompilerOutputSource \<Rightarrow> State
    \<Rightarrow> error + State" where
  "processSource E compilerOutput compilerInput entry s =
     (let sourceName = fst entry; source = snd entry;
          contractToAbi = map_of (out_contracts compilerOutput) sourceName
      in case map_of compilerInput sourceName of
           None \<Rightarrow> Inl SourceInputUndefined
         | Some content \<Rightarrow>
             (let file = sourceName;
                  s1 = s\<lparr>st_files := (st_files s)(file \<mapsto>
                            \<lparr>sf_sourceName = sourceName, sf_content = content,
                             sf_functions = []\<rparr>)\<rparr>;
                  s2 = s1\<lparr>fileIdToSourceFile :=
                            AList.update (cs_id source) file (fileIdToSourceFile s1)\<rparr>
              in processSourceNodes E file contractToAbi 0 (cs_nodes source) s2))"

fun processSources ::
  "Ext \<Rightarrow> CompilerOutput \<Rightarrow> CompilerInput \<Rightarrow> (string \<times> CompilerOutputSource) list \<Rightarrow> State
    \<Rightarrow> error + State" where
  "processSources E compilerOutput compilerInput [] s = Inr s"
| "processSources E compilerOutput compilerInput (entry # rest) s =
     (case processSource E compilerOutput compilerInput entry s of
        Inl e \<Rightarrow> Inl e
      | Inr s' \<Rightarrow> processSources E compilerOutput compilerInput rest s')"

subsection \<open>Inheritance\<close>

text \<open>The inner loop of \<^verbatim>\<open>applyContractsInheritance\<close> over the ancestor ids of a contract.\<close>

fun addBaseContracts :: "caddr \<Rightarrow> nat list \<Rightarrow> State \<Rightarrow> State" where
  "addBaseContracts contract [] s = s"
| "addBaseContracts contract (baseId # rest) s =
     (case map_of (contractIdToContract s) baseId of
        None \<Rightarrow> addBaseContracts contract rest s
      | Some baseContract \<Rightarrow>
          addBaseContracts contract rest (addNextLinearizedBaseContract contract baseContract s))"

text \<open>
  The outer loop over \<^verbatim>\<open>contractIdToContract.entries()\<close>. Iterating over the ancestor
  ids of a contract node that has none raises.
\<close>

fun applyInheritanceLoop :: "(nat \<times> caddr) list \<Rightarrow> State \<Rightarrow> error + State" where
  "applyInheritanceLoop [] s = Inr s"
| "applyInheritanceLoop ((cid, contract) # rest) s =
     (case map_of (contractIdToLinearizedBaseContractIds s) cid of
        Some (Some inheritanceIds) \<Rightarrow>
          applyInheritanceLoop rest (addBaseContracts contract inheritanceIds s)
      | _ \<Rightarrow> Inl LinearizedBaseContractsUndefined)"

definition applyContractsInheritance :: "State \<Rightarrow> error + State" where
  "applyContractsInheritance s = applyInheritanceLoop (contractIdToContract s) s"

definition createSourcesModelFromAst ::
  "Ext \<Rightarrow> CompilerOutput \<Rightarrow> CompilerInput \<Rightarrow> State \<Rightarrow> error + State" where
  "createSourcesModelFromAst E compilerOutput compilerInput s =
     (case processSources E compilerOutput compilerInput (out_sources compilerOutput) s of
        Inl e \<Rightarrow> Inl e
      | Inr s' \<Rightarrow> applyContractsInheritance s')"

subsection \<open>Bytecodes\<close>

definition decodeEvmBytecode ::
  "Ext \<Rightarrow> caddr \<Rightarrow> string \<Rightarrow> bool \<Rightarrow> CompilerOutputBytecode \<Rightarrow> (nat \<times> faddr) list \<Rightarrow> Bytecode"
  where
  "decodeEvmBytecode E contract solcVersion isDeployment compilerBytecode fileMap =
     (let libraryAddressPositions = getLibraryAddressPositions E compilerBytecode;
          immutableReferences =
            (case cb_immutableReferences compilerBytecode of
               Some refs \<Rightarrow> foldl (\<lambda>previousValue currentValue. previousValue @ currentValue) []
                              (map snd refs)
             | None \<Rightarrow> []);
          normalizedCode =
            normalizeCompilerOutputBytecode E (cb_object compilerBytecode) libraryAddressPositions;
          instructions =
            decodeInstructions E normalizedCode (cb_sourceMap compilerBytecode) (map_of fileMap)
              isDeployment
      in \<lparr>bc_contract = contract, bc_isDeployment = isDeployment,
          bc_normalizedCode = normalizedCode, bc_instructions = instructions,
          bc_libraryAddressPositions = libraryAddressPositions,
          bc_immutableReferences = immutableReferences,
          bc_compilerVersion = solcVersion\<rparr>)"

text \<open>The text that a template literal gives for a name that may be undefined.\<close>

definition nameText :: "string option \<Rightarrow> string" where
  "nameText n = (case n of None \<Rightarrow> ''undefined'' | Some str \<Rightarrow> str)"

text \<open>The message logged for an entry from which no custom error can be built.\<close>

definition errorMessage :: "AbiEntry \<Rightarrow> string" where
  "errorMessage abiItem =
     ''Couldn't build CustomError for error '' @ [CHR 0x27] @ nameText (ae_name abiItem)
       @ [CHR 0x27]"

text \<open>The loop of \<^verbatim>\<open>decodeBytecodes\<close> over the ABI of one contract.\<close>

fun customErrorsLoop :: "Ext \<Rightarrow> caddr \<Rightarrow> AbiEntry list \<Rightarrow> State \<Rightarrow> State" where
  "customErrorsLoop E contract [] s = s"
| "customErrorsLoop E contract (abiItem # rest) s =
     (if ae_type abiItem = ''error'' then
        (case customErrorFromABI E (ae_name abiItem) (ae_inputs abiItem) of
           Some customError \<Rightarrow> customErrorsLoop E contract rest (addCustomError contract customError s)
         | None \<Rightarrow>
             customErrorsLoop E contract rest (log (errorMessage abiItem) s))
      else customErrorsLoop E contract rest s)"

text \<open>
  One round of the loop of \<^verbatim>\<open>decodeBytecodes\<close>: the state afterwards and the bytecodes
  pushed. Reading the file of a contract without a location raises, and so does reading
  the output of a contract that \<^verbatim>\<open>compilerOutput.contracts\<close> does not have.
\<close>

definition decodeContract ::
  "Ext \<Rightarrow> string \<Rightarrow> CompilerOutput \<Rightarrow> caddr \<Rightarrow> State \<Rightarrow> error + (State \<times> Bytecode list)" where
  "decodeContract E solcVersion compilerOutput contract s =
     (case st_contracts s contract of
        None \<Rightarrow> Inl NoObject
      | Some c \<Rightarrow>
        (case c_location c of
           None \<Rightarrow> Inl LocationUndefined
         | Some location \<Rightarrow>
           (case st_files s (sl_file location) of
              None \<Rightarrow> Inl NoObject
            | Some f \<Rightarrow>
              (let contractFile = sf_sourceName f in
               case map_of (out_contracts compilerOutput) contractFile of
                 None \<Rightarrow> Inl ContractOutputUndefined
               | Some fileContracts \<Rightarrow>
                 (case map_of fileContracts (c_name c) of
                    None \<Rightarrow> Inl ContractOutputUndefined
                  | Some contractOutput \<Rightarrow>
                    (let s' = customErrorsLoop E contract (co_abi contractOutput) s in
                     if cb_object (co_bytecode contractOutput) = [] then Inr (s', [])
                     else
                       (let deploymentBytecode =
                              decodeEvmBytecode E contract solcVersion True
                                (co_bytecode contractOutput) (fileIdToSourceFile s');
                            runtimeBytecode =
                              decodeEvmBytecode E contract solcVersion False
                                (co_deployedBytecode contractOutput) (fileIdToSourceFile s')
                        in Inr (s', [deploymentBytecode, runtimeBytecode]))))))))"

text \<open>The loop over \<^verbatim>\<open>contractIdToContract.values()\<close>; \<open>bytecodes\<close> is the array pushed to.\<close>

fun decodeBytecodesLoop ::
  "Ext \<Rightarrow> string \<Rightarrow> CompilerOutput \<Rightarrow> caddr list \<Rightarrow> State \<Rightarrow> Bytecode list
    \<Rightarrow> error + (State \<times> Bytecode list)" where
  "decodeBytecodesLoop E solcVersion compilerOutput [] s bytecodes = Inr (s, bytecodes)"
| "decodeBytecodesLoop E solcVersion compilerOutput (contract # rest) s bytecodes =
     (case decodeContract E solcVersion compilerOutput contract s of
        Inl e \<Rightarrow> Inl e
      | Inr (s', pushed) \<Rightarrow>
          decodeBytecodesLoop E solcVersion compilerOutput rest s' (bytecodes @ pushed))"

definition decodeBytecodes ::
  "Ext \<Rightarrow> string \<Rightarrow> CompilerOutput \<Rightarrow> State \<Rightarrow> error + (State \<times> Bytecode list)" where
  "decodeBytecodes E solcVersion compilerOutput s =
     decodeBytecodesLoop E solcVersion compilerOutput (map snd (contractIdToContract s)) s []"

definition createModelsAndDecodeBytecodes ::
  "Ext \<Rightarrow> string \<Rightarrow> CompilerInput \<Rightarrow> CompilerOutput \<Rightarrow> error + (State \<times> Bytecode list)" where
  "createModelsAndDecodeBytecodes E solcVersion compilerInput compilerOutput =
     (case createSourcesModelFromAst E compilerOutput compilerInput emptyState of
        Inl e \<Rightarrow> Inl e
      | Inr s \<Rightarrow>
          (case decodeBytecodes E solcVersion compilerOutput s of
             Inl e \<Rightarrow> Inl e
           | Inr (s', bytecodes) \<Rightarrow>
               Inr (correctSelectors E bytecodes compilerOutput s', bytecodes)))"

subsection \<open>The canonical type of a parameter\<close>

text \<open>
  The canonical type of a parameter as the specification words it: a contract-typed
  parameter canonicalizes to \<^verbatim>\<open>address\<close>, an enum-typed parameter to \<^verbatim>\<open>uint8\<close>, a
  parameter whose type name is an array, a function type or a mapping uses its full
  declared type string, and every remaining parameter uses the canonical ABI form of its
  type name. A remaining parameter without a type name has no canonical type.
\<close>

definition canonicalParamType :: "Ext \<Rightarrow> Parameter \<Rightarrow> string option" where
  "canonicalParamType E param =
     (if isContractType E param then Some ''address''
      else if isEnumType E param then Some ''uint8''
      else
        (case p_typeName param of
           None \<Rightarrow> None
         | Some typename \<Rightarrow>
             if tn_nodeType typename \<in> {''ArrayTypeName'', ''FunctionTypeName'', ''Mapping''}
             then Some (tn_typeString typename)
             else Some (toCanonicalAbiType E (tn_name typename))))"

primrec allSome :: "'a option list \<Rightarrow> 'a list option" where
  "allSome [] = Some []"
| "allSome (x # xs) =
     (case x of
        None \<Rightarrow> None
      | Some y \<Rightarrow> (case allSome xs of None \<Rightarrow> None | Some ys \<Rightarrow> Some (y # ys)))"

text \<open>The input types that an ABI entry declares (none when it has no inputs).\<close>

definition abiInputTypes :: "AbiEntry \<Rightarrow> string list" where
  "abiInputTypes entry = (case ae_inputs entry of None \<Rightarrow> [] | Some inputs \<Rightarrow> map ai_type inputs)"

subsection \<open>Sample inputs\<close>

text \<open>
  A sample of the imported functions, on which the theorems are instantiated. The
  visibility and type predicates are those of hardhat; \<open>methodID\<close> is a stand-in for the
  Keccak hash of the signature: the first four bytes of the name followed by the types.
\<close>

definition sampleMethodID :: "string \<Rightarrow> string list \<Rightarrow> Buffer" where
  "sampleMethodID fname types =
     map (\<lambda>c. of_nat (of_char c)) (take 4 (fname @ concat types @ ''----''))"

definition sampleExt :: Ext where
  "sampleExt =
     \<lparr>astVisibilityToVisibility =
        (\<lambda>v. if v = ''private'' then PRIVATE else if v = ''internal'' then INTERNAL
              else if v = ''public'' then PUBLIC else EXTERNAL),
      isContractType =
        (\<lambda>p. case p_typeString p of None \<Rightarrow> False | Some t \<Rightarrow> take 9 t = ''contract ''),
      isEnumType =
        (\<lambda>p. case p_typeString p of None \<Rightarrow> False | Some t \<Rightarrow> take 5 t = ''enum ''),
      toCanonicalAbiType =
        (\<lambda>t. if t = ''uint'' then ''uint256'' else if t = ''int'' then ''int256'' else t),
      methodID = sampleMethodID,
      customErrorFromABI =
        (\<lambda>n inputs.
           case (n, inputs) of
             (Some errorName, Some ins) \<Rightarrow>
               Some \<lparr>ce_selector = sampleMethodID errorName (map ai_type ins),
                     ce_name = errorName, ce_paramTypes = map ai_type ins\<rparr>
           | _ \<Rightarrow> None),
      getLibraryAddressPositions = (\<lambda>compilerBytecode. []),
      normalizeCompilerOutputBytecode = (\<lambda>object positions. bufferFromHex object),
      decodeInstructions = (\<lambda>code sourceMap fileMap isDeployment. []),
      modifierDefinitionFunction =
        (\<lambda>node location contract.
           Some \<lparr>cf_name = md_name node, cf_type = MODIFIER, cf_location = location,
                 cf_contract = Some contract, cf_visibility = None, cf_isPayable = None,
                 cf_selector = None, cf_paramTypes = None\<rparr>),
      variableDeclarationFunction = (\<lambda>node location contract getterAbi. None),
      correctSelectors = (\<lambda>bytecodes compilerOutput s. s)\<rparr>"

definition sampleSrc :: Src where
  "sampleSrc = \<lparr>src_start = 0, src_length = 10, src_fileIndex = 0\<rparr>"

definition sampleFile :: SourceFile where
  "sampleFile = \<lparr>sf_sourceName = ''a.sol'', sf_content = ''contract A {}'', sf_functions = []\<rparr>"

text \<open>A state in which the file \<^verbatim>\<open>a.sol\<close> is registered under the id 0.\<close>

definition sampleState :: State where
  "sampleState =
     emptyState\<lparr>st_files := [''a.sol'' \<mapsto> sampleFile], fileIdToSourceFile := [(0, ''a.sol'')]\<rparr>"

definition uintParam :: Parameter where
  "uintParam =
     \<lparr>p_typeName = Some \<lparr>tn_nodeType = ''ElementaryTypeName'', tn_typeString = ''uint256'',
                          tn_name = ''uint''\<rparr>,
      p_typeString = Some ''uint256''\<rparr>"

definition addressParam :: Parameter where
  "addressParam =
     \<lparr>p_typeName = Some \<lparr>tn_nodeType = ''ElementaryTypeName'', tn_typeString = ''address'',
                          tn_name = ''address''\<rparr>,
      p_typeString = Some ''address''\<rparr>"

text \<open>\<^verbatim>\<open>function f(uint x) external {}\<close>, without a selector in the AST.\<close>

definition sampleFunction :: FunctionDefinition where
  "sampleFunction =
     \<lparr>fd_name = ''f'', fd_implemented = Some True, fd_kind = Some ''function'',
      fd_src = sampleSrc, fd_visibility = ''external'', fd_stateMutability = ''nonpayable'',
      fd_functionSelector = None, fd_parameters = [uintParam]\<rparr>"

text \<open>A declaration without a body, whose parameter has no type name.\<close>

definition unimplementedFunction :: FunctionDefinition where
  "unimplementedFunction =
     sampleFunction\<lparr>fd_implemented := Some False,
                    fd_parameters := [\<lparr>p_typeName = None, p_typeString = None\<rparr>]\<rparr>"

text \<open>The ABI of a contract with the overloads \<^verbatim>\<open>f(address)\<close> and \<^verbatim>\<open>f(uint256)\<close>.\<close>

definition overloadedAbi :: ContractAbi where
  "overloadedAbi =
     [\<lparr>ae_type = ''function'', ae_name = Some ''f'',
       ae_inputs = Some [\<lparr>ai_type = ''address''\<rparr>]\<rparr>,
      \<lparr>ae_type = ''function'', ae_name = Some ''g'', ae_inputs = Some []\<rparr>,
      \<lparr>ae_type = ''function'', ae_name = Some ''f'',
       ae_inputs = Some [\<lparr>ai_type = ''uint256''\<rparr>]\<rparr>]"

subsection \<open>Custom errors of an ABI\<close>

text \<open>
  The custom errors that the well-formed \<^verbatim>\<open>error\<close> entries of an ABI give, in the order
  of the ABI, and the entries from which no custom error can be built.
\<close>

definition customErrorsOfAbi :: "Ext \<Rightarrow> ContractAbi \<Rightarrow> CustomError list" where
  "customErrorsOfAbi E contractAbi =
     List.map_filter
       (\<lambda>abiItem. if ae_type abiItem = ''error''
                   then customErrorFromABI E (ae_name abiItem) (ae_inputs abiItem) else None)
       contractAbi"

definition failedErrorEntries :: "Ext \<Rightarrow> ContractAbi \<Rightarrow> AbiEntry list" where
  "failedErrorEntries E contractAbi =
     filter
       (\<lambda>abiItem. ae_type abiItem = ''error''
                   \<and> customErrorFromABI E (ae_name abiItem) (ae_inputs abiItem) = None)
       contractAbi"

subsection \<open>A sample contract\<close>

definition goodError :: AbiEntry where
  "goodError =
     \<lparr>ae_type = ''error'', ae_name = Some ''InsufficientBalance'',
      ae_inputs = Some [\<lparr>ai_type = ''uint256''\<rparr>]\<rparr>"

text \<open>An \<^verbatim>\<open>error\<close> entry without inputs, from which the sample builds no custom error.\<close>

definition badError :: AbiEntry where
  "badError = \<lparr>ae_type = ''error'', ae_name = Some ''Broken'', ae_inputs = None\<rparr>"

definition emptyBytecode :: CompilerOutputBytecode where
  "emptyBytecode = \<lparr>cb_object = '''', cb_sourceMap = '''', cb_immutableReferences = None\<rparr>"

definition addBytecode :: CompilerOutputBytecode where
  "addBytecode =
     \<lparr>cb_object = ''6001600201fe'', cb_sourceMap = ''0:10:0:-;;'', cb_immutableReferences = None\<rparr>"

definition sampleContract :: Contract where
  "sampleContract =
     \<lparr>c_name = ''A'', c_type = CONTRACT,
      c_location = Some \<lparr>sl_file = ''a.sol'', sl_offset = 0, sl_length = 10\<rparr>,
      c_localFunctions = [], c_linearizedBaseContracts = [], c_customErrors = []\<rparr>"

text \<open>The state after the contract \<^verbatim>\<open>A\<close> of \<^verbatim>\<open>a.sol\<close> has been registered under the id 1.\<close>

definition contractState :: State where
  "contractState =
     sampleState\<lparr>st_contracts := [(''a.sol'', 0) \<mapsto> sampleContract],
                 contractIdToContract := [(1, (''a.sol'', 0))],
                 contractIdToLinearizedBaseContractIds := [(1, Some [1])]\<rparr>"

text \<open>Compiler outputs for \<^verbatim>\<open>A\<close>: an abstract contract, and a contract with bytecode.\<close>

definition abstractOutput :: CompilerOutput where
  "abstractOutput =
     \<lparr>out_sources = [],
      out_contracts =
        [(''a.sol'',
          [(''A'', \<lparr>co_abi = [goodError, badError], co_bytecode = emptyBytecode,
                    co_deployedBytecode = emptyBytecode\<rparr>)])]\<rparr>"

definition concreteOutput :: CompilerOutput where
  "concreteOutput =
     \<lparr>out_sources = [],
      out_contracts =
        [(''a.sol'',
          [(''A'', \<lparr>co_abi = [badError, goodError], co_bytecode = addBytecode,
                    co_deployedBytecode = addBytecode\<rparr>)])]\<rparr>"

text \<open>
  Two states that differ at most in the custom errors of their contracts and in the
  messages logged.
\<close>

definition sameButErrors :: "State \<Rightarrow> State \<Rightarrow> bool" where
  "sameButErrors s t \<longleftrightarrow>
     st_files s = st_files t \<and> fileIdToSourceFile s = fileIdToSourceFile t
     \<and> contractIdToContract s = contractIdToContract t
     \<and> map_option (\<lambda>c. (c_name c, c_location c)) \<circ> st_contracts s
           = map_option (\<lambda>c. (c_name c, c_location c)) \<circ> st_contracts t"

subsection \<open>What a source contributes to the model\<close>

text \<open>
  The functions that the nodes of a contract give, in their order: one for each function
  definition that is not skipped, and the entities of the modifier and state variable
  nodes. \<open>fileMap\<close> is the file map at the time the contract is processed.
\<close>

fun memberFunctions ::
  "Ext \<Rightarrow> (nat \<times> faddr) list \<Rightarrow> caddr \<Rightarrow> ContractAbi option \<Rightarrow> ContractMember list
    \<Rightarrow> error + ContractFunction list" where
  "memberFunctions E fileMap contract contractAbi [] = Inr []"
| "memberFunctions E fileMap contract contractAbi (FunctionDefinitionNode node # rest) =
     (if fd_implemented node = Some False
      then memberFunctions E fileMap contract contractAbi rest
      else
        (case newContractFunction E node fileMap (Some contract)
                (case contractAbi of
                   None \<Rightarrow> None
                 | Some entries \<Rightarrow>
                     Some (filter (\<lambda>abiEntry. ae_name abiEntry = Some (fd_name node)) entries)) of
           Inl e \<Rightarrow> Inl e
         | Inr func \<Rightarrow>
             (case memberFunctions E fileMap contract contractAbi rest of
                Inl e \<Rightarrow> Inl e
              | Inr funcs \<Rightarrow> Inr (func # funcs))))"
| "memberFunctions E fileMap contract contractAbi (ModifierDefinitionNode node # rest) =
     (case memberFunctions E fileMap contract contractAbi rest of
        Inl e \<Rightarrow> Inl e
      | Inr funcs \<Rightarrow>
          (case modifierDefinitionFunction E node
                  (astSrcToSourceLocation (md_src node) fileMap) contract of
             None \<Rightarrow> Inr funcs
           | Some func \<Rightarrow> Inr (func # funcs)))"
| "memberFunctions E fileMap contract contractAbi (VariableDeclarationNode node # rest) =
     (case memberFunctions E fileMap contract contractAbi rest of
        Inl e \<Rightarrow> Inl e
      | Inr funcs \<Rightarrow>
          (case variableDeclarationFunction E node
                  (astSrcToSourceLocation (vd_src node) fileMap) contract
                  (case contractAbi of
                     None \<Rightarrow> None
                   | Some entries \<Rightarrow>
                       find (\<lambda>abiEntry. ae_name abiEntry = Some (vd_name node)) entries) of
             None \<Rightarrow> Inr funcs
           | Some func \<Rightarrow> Inr (func # funcs)))"
| "memberFunctions E fileMap contract contractAbi (OtherMember nodeType # rest) =
     memberFunctions E fileMap contract contractAbi rest"

text \<open>
  A contract registered by a source: the id of its node, its address, the object as it is
  once its nodes are processed, and the ancestor ids that the compiler gives.
\<close>

record NewContract =
  nc_id :: nat
  nc_address :: caddr
  nc_contract :: Contract
  nc_baseIds :: "nat list option"

text \<open>
  The functions that the top-level nodes of a source add to its file, in their order, and
  the contracts that they register, in their order. \<open>i\<close> is the position of the first node.
\<close>

fun sourceSummary ::
  "Ext \<Rightarrow> (nat \<times> faddr) list \<Rightarrow> faddr \<Rightarrow> (string \<times> CompilerOutputContract) list option \<Rightarrow> nat
    \<Rightarrow> SourceUnitNode list \<Rightarrow> error + (ContractFunction list \<times> NewContract list)" where
  "sourceSummary E fileMap file contractToAbi i [] = Inr ([], [])"
| "sourceSummary E fileMap file contractToAbi i (ContractDefinitionNode node # rest) =
     (case contractKindToContractType (cd_contractKind node) of
        None \<Rightarrow> sourceSummary E fileMap file contractToAbi (Suc i) rest
      | Some contractType \<Rightarrow>
          (case memberFunctions E fileMap (file, i)
                  (case contractToAbi of
                     None \<Rightarrow> None
                   | Some entries \<Rightarrow> map_option co_abi (map_of entries (cd_name node)))
                  (cd_nodes node) of
             Inl e \<Rightarrow> Inl e
           | Inr funcs \<Rightarrow>
               (case sourceSummary E fileMap file contractToAbi (Suc i) rest of
                  Inl e \<Rightarrow> Inl e
                | Inr (fs, cs) \<Rightarrow>
                    Inr (funcs @ fs,
                         \<lparr>nc_id = cd_id node, nc_address = (file, i),
                          nc_contract =
                            \<lparr>c_name = cd_name node, c_type = contractType,
                             c_location = astSrcToSourceLocation (cd_src node) fileMap,
                             c_localFunctions = funcs, c_linearizedBaseContracts = [],
                             c_customErrors = []\<rparr>,
                          nc_baseIds = cd_linearizedBaseContracts node\<rparr> # cs))))"
| "sourceSummary E fileMap file contractToAbi i (TopLevelFunctionNode node # rest) =
     (if fd_implemented node = Some False
      then sourceSummary E fileMap file contractToAbi (Suc i) rest
      else
        (case newContractFunction E node fileMap None None of
           Inl e \<Rightarrow> Inl e
         | Inr func \<Rightarrow>
             (case sourceSummary E fileMap file contractToAbi (Suc i) rest of
                Inl e \<Rightarrow> Inl e
              | Inr (fs, cs) \<Rightarrow> Inr (func # fs, cs))))"
| "sourceSummary E fileMap file contractToAbi i (OtherNode nodeType # rest) =
     sourceSummary E fileMap file contractToAbi (Suc i) rest"

text \<open>The state after the given contracts have been registered one after the other.\<close>

definition putContract :: "NewContract \<Rightarrow> (caddr \<rightharpoonup> Contract) \<Rightarrow> (caddr \<rightharpoonup> Contract)" where
  "putContract nc m = m(nc_address nc \<mapsto> nc_contract nc)"

definition registerContracts :: "NewContract list \<Rightarrow> State \<Rightarrow> State" where
  "registerContracts cs s =
     s\<lparr>st_contracts := fold putContract cs (st_contracts s),
       contractIdToContract :=
         fold (\<lambda>nc. AList.update (nc_id nc) (nc_address nc)) cs (contractIdToContract s),
       contractIdToLinearizedBaseContractIds :=
         fold (\<lambda>nc. AList.update (nc_id nc) (nc_baseIds nc)) cs
           (contractIdToLinearizedBaseContractIds s)\<rparr>"

text \<open>The state after functions have been added to a file and to a contract.\<close>

definition withFunctions ::
  "faddr \<Rightarrow> SourceFile \<Rightarrow> caddr \<Rightarrow> Contract \<Rightarrow> ContractFunction list \<Rightarrow> State \<Rightarrow> State" where
  "withFunctions file f contract c funcs s =
     s\<lparr>st_files := (st_files s)(file \<mapsto> f\<lparr>sf_functions := sf_functions f @ funcs\<rparr>),
       st_contracts :=
         (st_contracts s)(contract \<mapsto> c\<lparr>c_localFunctions := c_localFunctions c @ funcs\<rparr>)\<rparr>"

text \<open>The state after a source has added functions to its file and registered contracts.\<close>

definition withSummary ::
  "faddr \<Rightarrow> SourceFile \<Rightarrow> ContractFunction list \<Rightarrow> NewContract list \<Rightarrow> State \<Rightarrow> State" where
  "withSummary file f fs cs s =
     registerContracts cs
       (s\<lparr>st_files := (st_files s)(file \<mapsto> f\<lparr>sf_functions := sf_functions f @ fs\<rparr>)\<rparr>)"

text \<open>
  What holds of the state while the sources with the given names have been processed: no
  two ids name the same contract, the map of ancestor ids has the keys of the contract
  map, every contract of the contract map is in the store and comes from one of the
  sources, and no contract has an ancestor or a custom error yet.
\<close>

definition registered :: "string set \<Rightarrow> State \<Rightarrow> bool" where
  "registered names s \<longleftrightarrow>
     distinct (map snd (contractIdToContract s))
     \<and> map fst (contractIdToLinearizedBaseContractIds s) = map fst (contractIdToContract s)
     \<and> (\<forall>a \<in> snd ` set (contractIdToContract s). fst a \<in> names \<and> st_contracts s a \<noteq> None)
     \<and> (\<forall>a c. st_contracts s a = Some c \<longrightarrow>
            c_linearizedBaseContracts c = [] \<and> c_customErrors c = [])"

text \<open>The ancestors that resolve in the contract map, in the order of the ids.\<close>

definition resolveBaseContracts :: "(nat \<times> caddr) list \<Rightarrow> nat list \<Rightarrow> caddr list" where
  "resolveBaseContracts contractMap ids = List.map_filter (map_of contractMap) ids"

text \<open>
  What the inheritance pass does to the store for one entry of the contract map, given the
  contract map and the map of ancestor ids.
\<close>

definition resolveEntry ::
  "(nat \<times> caddr) list \<Rightarrow> (nat \<times> nat list option) list \<Rightarrow> nat \<times> caddr
    \<Rightarrow> (caddr \<rightharpoonup> Contract) \<Rightarrow> (caddr \<rightharpoonup> Contract)" where
  "resolveEntry contractMap baseIds entry m =
     (case m (snd entry) of
        None \<Rightarrow> m
      | Some c \<Rightarrow>
          (case map_of baseIds (fst entry) of
             Some (Some ids) \<Rightarrow>
               m(snd entry \<mapsto>
                   c\<lparr>c_linearizedBaseContracts :=
                        c_linearizedBaseContracts c @ resolveBaseContracts contractMap ids\<rparr>)
           | _ \<Rightarrow> m))"

text \<open>Does the node registered under the id of the entry have ancestor ids?\<close>

definition hasBaseIds :: "(nat \<times> nat list option) list \<Rightarrow> nat \<times> caddr \<Rightarrow> bool" where
  "hasBaseIds baseIds entry =
     (case map_of baseIds (fst entry) of Some (Some ids) \<Rightarrow> True | _ \<Rightarrow> False)"

subsection \<open>A sample compilation\<close>

text \<open>
  The source \<^verbatim>\<open>a.sol\<close> with the contracts \<^verbatim>\<open>A\<close> (id 1) and \<^verbatim>\<open>B\<close> (id 2), an interface
  \<^verbatim>\<open>I\<close> (id 7) and a free function. \<^verbatim>\<open>A\<close> inherits from \<^verbatim>\<open>I\<close> and \<^verbatim>\<open>B\<close> and defines the
  function \<^verbatim>\<open>f\<close>.
\<close>

definition freeFunction :: FunctionDefinition where
  "freeFunction =
     \<lparr>fd_name = ''helper'', fd_implemented = Some True, fd_kind = Some ''freeFunction'',
      fd_src = sampleSrc, fd_visibility = ''internal'', fd_stateMutability = ''pure'',
      fd_functionSelector = None, fd_parameters = []\<rparr>"

definition contractA :: ContractDefinition where
  "contractA =
     \<lparr>cd_id = 1, cd_name = ''A'', cd_contractKind = Some ''contract'', cd_src = sampleSrc,
      cd_linearizedBaseContracts = Some [1, 7, 2],
      cd_nodes = [FunctionDefinitionNode sampleFunction]\<rparr>"

definition contractB :: ContractDefinition where
  "contractB =
     \<lparr>cd_id = 2, cd_name = ''B'', cd_contractKind = Some ''contract'', cd_src = sampleSrc,
      cd_linearizedBaseContracts = Some [2], cd_nodes = []\<rparr>"

definition interfaceI :: ContractDefinition where
  "interfaceI =
     \<lparr>cd_id = 7, cd_name = ''I'', cd_contractKind = Some ''interface'', cd_src = sampleSrc,
      cd_linearizedBaseContracts = Some [7], cd_nodes = []\<rparr>"

definition sourceA :: CompilerOutputSource where
  "sourceA =
     \<lparr>cs_id = 0,
      cs_nodes = [ContractDefinitionNode contractA, ContractDefinitionNode interfaceI,
                  ContractDefinitionNode contractB, TopLevelFunctionNode freeFunction]\<rparr>"

definition outputOf :: "bool \<Rightarrow> CompilerOutputContract" where
  "outputOf abstract =
     \<lparr>co_abi = [goodError],
      co_bytecode = (if abstract then emptyBytecode else addBytecode),
      co_deployedBytecode = (if abstract then emptyBytecode else addBytecode)\<rparr>"

definition sampleOutput :: CompilerOutput where
  "sampleOutput =
     \<lparr>out_sources = [(''a.sol'', sourceA)],
      out_contracts = [(''a.sol'', [(''A'', outputOf False), (''B'', outputOf True)])]\<rparr>"

definition sampleInput :: CompilerInput where
  "sampleInput = [(''a.sol'', ''contract A {}''), (''b.sol'', ''contract C {}'')]"

text \<open>
  The same source with ancestor ids in which \<^verbatim>\<open>A\<close> and \<^verbatim>\<open>B\<close> inherit from each other and
  \<^verbatim>\<open>A\<close> occurs twice among its own ancestors.
\<close>

definition cyclicSource :: CompilerOutputSource where
  "cyclicSource =
     \<lparr>cs_id = 0,
      cs_nodes =
        [ContractDefinitionNode (contractA\<lparr>cd_linearizedBaseContracts := Some [1, 2, 1]\<rparr>),
         ContractDefinitionNode (contractB\<lparr>cd_linearizedBaseContracts := Some [2, 1]\<rparr>)]\<rparr>"

definition cyclicOutput :: CompilerOutput where
  "cyclicOutput = sampleOutput\<lparr>out_sources := [(''a.sol'', cyclicSource)]\<rparr>"

text \<open>The ancestors and the local functions of a contract, and the functions of a file, after a build.\<close>

definition ancestorsOf :: "error + State \<Rightarrow> caddr \<Rightarrow> caddr list option" where
  "ancestorsOf r contract =
     (case r of
        Inl e \<Rightarrow> None
      | Inr s \<Rightarrow> map_option c_linearizedBaseContracts (st_contracts s contract))"

definition localFunctionsOf :: "error + State \<Rightarrow> caddr \<Rightarrow> ContractFunction list option" where
  "localFunctionsOf r contract =
     (case r of
        Inl e \<Rightarrow> None
      | Inr s \<Rightarrow> map_option c_localFunctions (st_contracts s contract))"

definition fileFunctionsOf :: "error + State \<Rightarrow> faddr \<Rightarrow> ContractFunction list option" where
  "fileFunctionsOf r file =
     (case r of
        Inl e \<Rightarrow> None
      | Inr s \<Rightarrow> map_option sf_functions (st_files s file))"

text \<open>Whether a run returns, and the contract map that it returns.\<close>

definition succeeds :: "'e + 'a \<Rightarrow> bool" where
  "succeeds r = (case r of Inl e \<Rightarrow> False | Inr x \<Rightarrow> True)"

definition contractMapOf :: "error + State \<Rightarrow> (nat \<times> caddr) list" where
  "contractMapOf r = (case r of Inl e \<Rightarrow> [] | Inr s \<Rightarrow> contractIdToContract s)"

subsection \<open>Selectors that the compiler gives\<close>

text \<open>\<^verbatim>\<open>function f(uint x) external {}\<close> with the selector that solc writes in the AST.\<close>

definition explicitFunction :: FunctionDefinition where
  "explicitFunction = sampleFunction\<lparr>fd_functionSelector := Some ''b3de648b''\<rparr>"


subsection \<open>The nodes behind the contract map\<close>

text \<open>
  The contract definition that the object at an address was created for: the node at the
  position of the address among the top-level nodes of the source of the address.
\<close>

definition nodeAt :: "(string \<times> CompilerOutputSource) list \<Rightarrow> caddr \<Rightarrow> ContractDefinition option"
  where
  "nodeAt sources contract =
     (case map_of sources (fst contract) of
        None \<Rightarrow> None
      | Some source \<Rightarrow>
          if snd contract < length (cs_nodes source)
          then (case cs_nodes source ! snd contract of
                  ContractDefinitionNode node \<Rightarrow> Some node
                | _ \<Rightarrow> None)
          else None)"

text \<open>
  An entry of the contract map records a node: the id is that of the contract definition
  at the address, and the ancestor ids kept for the id are those of that definition.
\<close>

definition recorded ::
  "(string \<times> CompilerOutputSource) list \<Rightarrow> nat \<Rightarrow> caddr \<Rightarrow> nat list option option \<Rightarrow> bool"
  where
  "recorded sources cid contract baseIds \<longleftrightarrow>
     (case nodeAt sources contract of
        None \<Rightarrow> False
      | Some node \<Rightarrow> cd_id node = cid \<and> baseIds = Some (cd_linearizedBaseContracts node))"

text \<open>
  What holds of the maps and of the store while the sources are processed: every entry of
  the contract map records its node, and every contract of the store has the name of the
  contract definition at its address.
\<close>

definition tied :: "(string \<times> CompilerOutputSource) list \<Rightarrow> State \<Rightarrow> bool" where
  "tied sources s \<longleftrightarrow>
     (\<forall>cid contract. map_of (contractIdToContract s) cid = Some contract \<longrightarrow>
        recorded sources cid contract (map_of (contractIdToLinearizedBaseContractIds s) cid))
     \<and> (\<forall>contract c. st_contracts s contract = Some c \<longrightarrow>
          (case nodeAt sources contract of None \<Rightarrow> False | Some node \<Rightarrow> c_name c = cd_name node))"

subsection \<open>The bytecode pass as a whole\<close>

text \<open>
  The compiler output that a round of the loop of \<^verbatim>\<open>decodeBytecodes\<close> reads for a contract:
  \<^verbatim>\<open>compilerOutput.contracts[contract.location.file.sourceName][contract.name]\<close>, or what
  reading it raises.
\<close>

definition contractOutputOf ::
  "CompilerOutput \<Rightarrow> State \<Rightarrow> caddr \<Rightarrow> error + CompilerOutputContract" where
  "contractOutputOf compilerOutput s contract =
     (case st_contracts s contract of
        None \<Rightarrow> Inl NoObject
      | Some c \<Rightarrow>
        (case c_location c of
           None \<Rightarrow> Inl LocationUndefined
         | Some location \<Rightarrow>
           (case st_files s (sl_file location) of
              None \<Rightarrow> Inl NoObject
            | Some f \<Rightarrow>
              (case map_of (out_contracts compilerOutput) (sf_sourceName f) of
                 None \<Rightarrow> Inl ContractOutputUndefined
               | Some fileContracts \<Rightarrow>
                 (case map_of fileContracts (c_name c) of
                    None \<Rightarrow> Inl ContractOutputUndefined
                  | Some contractOutput \<Rightarrow> Inr contractOutput)))))"

text \<open>The bytecodes that a round of the loop pushes for a contract with the given output.\<close>

definition pushedBytecodes ::
  "Ext \<Rightarrow> string \<Rightarrow> (nat \<times> faddr) list \<Rightarrow> caddr \<Rightarrow> CompilerOutputContract \<Rightarrow> Bytecode list"
  where
  "pushedBytecodes E solcVersion fileMap contract contractOutput =
     (if cb_object (co_bytecode contractOutput) = '''' then []
      else [decodeEvmBytecode E contract solcVersion True (co_bytecode contractOutput) fileMap,
            decodeEvmBytecode E contract solcVersion False (co_deployedBytecode contractOutput)
              fileMap])"

text \<open>The results of a list of runs, or what the first of them that raises has raised.\<close>

fun collect :: "('e + 'a) list \<Rightarrow> 'e + 'a list" where
  "collect [] = Inr []"
| "collect (x # xs) =
     (case x of
        Inl e \<Rightarrow> Inl e
      | Inr y \<Rightarrow> (case collect xs of Inl e \<Rightarrow> Inl e | Inr ys \<Rightarrow> Inr (y # ys)))"

text \<open>The bytecode pass on the result of the first two passes.\<close>

definition decodeAfterBuild ::
  "Ext \<Rightarrow> string \<Rightarrow> CompilerInput \<Rightarrow> CompilerOutput \<Rightarrow> error + (State \<times> Bytecode list)" where
  "decodeAfterBuild E solcVersion compilerInput compilerOutput =
     (case createSourcesModelFromAst E compilerOutput compilerInput emptyState of
        Inl e \<Rightarrow> Inl e
      | Inr s \<Rightarrow> decodeBytecodes E solcVersion compilerOutput s)"

text \<open>
  The contract and the kind of each bytecode of a run, the custom errors of a contract
  after it, and the bytecode object and the number of ABI entries that the bytecode pass
  reads for a contract.
\<close>

definition bytecodeOwners :: "error + (State \<times> Bytecode list) \<Rightarrow> (caddr \<times> bool) list option" where
  "bytecodeOwners r =
     (case r of
        Inl e \<Rightarrow> None
      | Inr (s, bytecodes) \<Rightarrow> Some (map (\<lambda>b. (bc_contract b, bc_isDeployment b)) bytecodes))"

definition customErrorsOf :: "error + (State \<times> Bytecode list) \<Rightarrow> caddr \<Rightarrow> CustomError list option"
  where
  "customErrorsOf r contract =
     (case r of
        Inl e \<Rightarrow> None
      | Inr (s, bytecodes) \<Rightarrow> map_option c_customErrors (st_contracts s contract))"

definition outputAfterBuild ::
  "Ext \<Rightarrow> CompilerInput \<Rightarrow> CompilerOutput \<Rightarrow> caddr \<Rightarrow> (string \<times> nat) option" where
  "outputAfterBuild E compilerInput compilerOutput contract =
     (case createSourcesModelFromAst E compilerOutput compilerInput emptyState of
        Inl e \<Rightarrow> None
      | Inr s \<Rightarrow>
          (case contractOutputOf compilerOutput s contract of
             Inl e \<Rightarrow> None
           | Inr contractOutput \<Rightarrow>
               Some (cb_object (co_bytecode contractOutput), length (co_abi contractOutput))))"

text \<open>
  For each contract of the contract map after the first two passes, in the order of the
  map, the contract and the kind of each bytecode that the bytecode pass pushes for it.
\<close>

definition pushedAfterBuild ::
  "Ext \<Rightarrow> string \<Rightarrow> CompilerInput \<Rightarrow> CompilerOutput \<Rightarrow> (caddr \<times> bool) list list option" where
  "pushedAfterBuild E solcVersion compilerInput compilerOutput =
     (case createSourcesModelFromAst E compilerOutput compilerInput emptyState of
        Inl e \<Rightarrow> None
      | Inr s \<Rightarrow>
          (case collect
                  (map (\<lambda>contract.
                          map_sum id
                            (pushedBytecodes E solcVersion (fileIdToSourceFile s) contract)
                            (contractOutputOf compilerOutput s contract))
                     (map snd (contractIdToContract s))) of
             Inl e \<Rightarrow> None
           | Inr pushed \<Rightarrow>
               Some (map (map (\<lambda>b. (bc_contract b, bc_isDeployment b))) pushed)))"

subsection \<open>Sources enumerated in another order\<close>

text \<open>Does every \<^verbatim>\<open>src\<close> of the nodes name the file with the given id?\<close>

fun ownMember :: "nat \<Rightarrow> ContractMember \<Rightarrow> bool" where
  "ownMember fileId (FunctionDefinitionNode node) = (src_fileIndex (fd_src node) = fileId)"
| "ownMember fileId (ModifierDefinitionNode node) = (src_fileIndex (md_src node) = fileId)"
| "ownMember fileId (VariableDeclarationNode node) = (src_fileIndex (vd_src node) = fileId)"
| "ownMember fileId (OtherMember nodeType) = True"

fun ownNode :: "nat \<Rightarrow> SourceUnitNode \<Rightarrow> bool" where
  "ownNode fileId (ContractDefinitionNode node) =
     (src_fileIndex (cd_src node) = fileId \<and> list_all (ownMember fileId) (cd_nodes node))"
| "ownNode fileId (TopLevelFunctionNode node) = (src_fileIndex (fd_src node) = fileId)"
| "ownNode fileId (OtherNode nodeType) = True"

definition ownSource :: "string \<times> CompilerOutputSource \<Rightarrow> bool" where
  "ownSource entry = list_all (ownNode (cs_id (snd entry))) (cs_nodes (snd entry))"

text \<open>The ids of the contract definitions of a source that the builder registers.\<close>

fun definedIds :: "SourceUnitNode list \<Rightarrow> nat list" where
  "definedIds [] = []"
| "definedIds (ContractDefinitionNode node # rest) =
     (if contractKindToContractType (cd_contractKind node) = None then definedIds rest
      else cd_id node # definedIds rest)"
| "definedIds (TopLevelFunctionNode node # rest) = definedIds rest"
| "definedIds (OtherNode nodeType # rest) = definedIds rest"

text \<open>
  Sources as a compiler gives them: no two have the same name or the same id, every
  \<^verbatim>\<open>src\<close> of a source names the source itself, and no two contract definitions have the
  same id.
\<close>

definition wellFormedSources :: "(string \<times> CompilerOutputSource) list \<Rightarrow> bool" where
  "wellFormedSources sources \<longleftrightarrow>
     distinct (map fst sources)
     \<and> distinct (map (\<lambda>entry. cs_id (snd entry)) sources)
     \<and> list_all ownSource sources
     \<and> distinct (concat (map (\<lambda>entry. definedIds (cs_nodes (snd entry))) sources))"

text \<open>
  What the contract outputs of a source file say about the ABI of a contract: the summary
  of a source depends on them through this lookup only.
\<close>

definition abiOf :: "(string \<times> CompilerOutputContract) list option \<Rightarrow> string \<Rightarrow> ContractAbi option"
  where
  "abiOf contractToAbi contractName =
     (case contractToAbi of
        None \<Rightarrow> None
      | Some entries \<Rightarrow> map_option co_abi (map_of entries contractName))"

text \<open>
  What one source gives when the \<^verbatim>\<open>src\<close> of each of its nodes names the source itself: its
  name and id, its file object and the contracts that it registers.
\<close>

record Summary =
  sm_name :: string
  sm_id :: nat
  sm_file :: SourceFile
  sm_contracts :: "NewContract list"

definition summaryOf ::
  "Ext \<Rightarrow> CompilerOutput \<Rightarrow> CompilerInput \<Rightarrow> string \<times> CompilerOutputSource \<Rightarrow> error + Summary"
  where
  "summaryOf E compilerOutput compilerInput entry =
     (case map_of compilerInput (fst entry) of
        None \<Rightarrow> Inl SourceInputUndefined
      | Some content \<Rightarrow>
          (case sourceSummary E [(cs_id (snd entry), fst entry)] (fst entry)
                  (map_of (out_contracts compilerOutput) (fst entry)) 0 (cs_nodes (snd entry)) of
             Inl e \<Rightarrow> Inl e
           | Inr (fs, cs) \<Rightarrow>
               Inr \<lparr>sm_name = fst entry, sm_id = cs_id (snd entry),
                    sm_file = \<lparr>sf_sourceName = fst entry, sf_content = content,
                               sf_functions = fs\<rparr>,
                    sm_contracts = cs\<rparr>))"

definition applySummary :: "Summary \<Rightarrow> State \<Rightarrow> State" where
  "applySummary sm s =
     registerContracts (sm_contracts sm)
       (s\<lparr>st_files := (st_files s)(sm_name sm \<mapsto> sm_file sm),
          fileIdToSourceFile := AList.update (sm_id sm) (sm_name sm) (fileIdToSourceFile s)\<rparr>)"

definition putFile :: "Summary \<Rightarrow> (faddr \<rightharpoonup> SourceFile) \<Rightarrow> (faddr \<rightharpoonup> SourceFile)" where
  "putFile sm m = m(sm_name sm \<mapsto> sm_file sm)"

text \<open>The map that a list of entries gives when each is put under its key, one after the other.\<close>

definition putAll :: "('x \<Rightarrow> 'k) \<Rightarrow> ('x \<Rightarrow> 'v) \<Rightarrow> 'x list \<Rightarrow> ('k \<rightharpoonup> 'v) \<Rightarrow> ('k \<rightharpoonup> 'v)" where
  "putAll key val xs m = fold (\<lambda>x m. m(key x \<mapsto> val x)) xs m"

text \<open>
  Two states with the same files and contracts, whose maps have the same entries, in
  whatever order.
\<close>

definition sameContent :: "State \<Rightarrow> State \<Rightarrow> bool" where
  "sameContent s t \<longleftrightarrow>
     st_files s = st_files t \<and> st_contracts s = st_contracts t
     \<and> map_of (fileIdToSourceFile s) = map_of (fileIdToSourceFile t)
     \<and> mset (contractIdToContract s) = mset (contractIdToContract t)
     \<and> map_of (contractIdToContract s) = map_of (contractIdToContract t)
     \<and> map_of (contractIdToLinearizedBaseContractIds s)
         = map_of (contractIdToLinearizedBaseContractIds t)"

text \<open>
  A second source, \<^verbatim>\<open>b.sol\<close>, whose contract \<^verbatim>\<open>C\<close> (id 3) inherits from the contract \<^verbatim>\<open>B\<close> of
  \<^verbatim>\<open>a.sol\<close>, and the compilation of the two sources, enumerated in one order and in the other.
\<close>

definition contractC :: ContractDefinition where
  "contractC =
     \<lparr>cd_id = 3, cd_name = ''C'', cd_contractKind = Some ''contract'',
      cd_src = \<lparr>src_start = 0, src_length = 13, src_fileIndex = 1\<rparr>,
      cd_linearizedBaseContracts = Some [3, 2], cd_nodes = []\<rparr>"

definition sourceB :: CompilerOutputSource where
  "sourceB = \<lparr>cs_id = 1, cs_nodes = [ContractDefinitionNode contractC]\<rparr>"

definition twoSourcesOutput :: CompilerOutput where
  "twoSourcesOutput =
     \<lparr>out_sources = [(''a.sol'', sourceA), (''b.sol'', sourceB)],
      out_contracts = [(''a.sol'', [(''A'', outputOf False), (''B'', outputOf True)]),
                       (''b.sol'', [(''C'', outputOf False)])]\<rparr>"

definition swappedOutput :: CompilerOutput where
  "swappedOutput =
     \<lparr>out_sources = [(''b.sol'', sourceB), (''a.sol'', sourceA)],
      out_contracts = [(''b.sol'', [(''C'', outputOf False)]),
                       (''a.sol'', [(''B'', outputOf True), (''A'', outputOf False)])]\<rparr>"

definition swappedInput :: CompilerInput where
  "swappedInput = [(''b.sol'', ''contract C {}''), (''a.sol'', ''contract A {}'')]"

text \<open>
  Sources that no compiler gives: the contract \<^verbatim>\<open>D\<close> of \<^verbatim>\<open>b.sol\<close> has the id 2 of the
  contract \<^verbatim>\<open>B\<close> of \<^verbatim>\<open>a.sol\<close>.
\<close>

definition contractD :: ContractDefinition where
  "contractD =
     \<lparr>cd_id = 2, cd_name = ''D'', cd_contractKind = Some ''contract'',
      cd_src = \<lparr>src_start = 0, src_length = 13, src_fileIndex = 1\<rparr>,
      cd_linearizedBaseContracts = Some [2], cd_nodes = []\<rparr>"

definition sourceD :: CompilerOutputSource where
  "sourceD = \<lparr>cs_id = 1, cs_nodes = [ContractDefinitionNode contractD]\<rparr>"

definition clashingOutput :: CompilerOutput where
  "clashingOutput =
     \<lparr>out_sources = [(''a.sol'', sourceA), (''b.sol'', sourceD)],
      out_contracts = [(''a.sol'', [(''A'', outputOf False), (''B'', outputOf True)]),
                       (''b.sol'', [(''D'', outputOf False)])]\<rparr>"

definition swappedClashingOutput :: CompilerOutput where
  "swappedClashingOutput =
     clashingOutput\<lparr>out_sources := [(''b.sol'', sourceD), (''a.sol'', sourceA)]\<rparr>"

text \<open>The ancestors of a contract after a full build.\<close>

definition builtAncestorsOf :: "error + (State \<times> Bytecode list) \<Rightarrow> caddr \<Rightarrow> caddr list option"
  where
  "builtAncestorsOf r contract =
     (case r of
        Inl e \<Rightarrow> None
      | Inr (s, bytecodes) \<Rightarrow> map_option c_linearizedBaseContracts (st_contracts s contract))"

section \<open>Properties\<close>

subsection \<open>Function definitions\<close>

lemma selectorOfNode_Some:
  "selectorOfNode E node functionType visibility = Inr selector \<Longrightarrow>
     (selector \<noteq> None) = (functionType = FUNCTION \<and> (visibility = PUBLIC \<or> visibility = EXTERNAL))"
  by (auto simp: selectorOfNode_def split: if_splits sum.splits)

lemma newContractFunction_fields:
  assumes "newContractFunction E node fileMap contract functionAbis = Inr func"
  shows "cf_type func = functionDefinitionKindToFunctionType (fd_kind node)"
    and "cf_visibility func = Some (astVisibilityToVisibility E (fd_visibility node))"
    and "cf_contract func = contract"
    and "cf_name func = fd_name node"
    and "cf_location func = astSrcToSourceLocation (fd_src node) fileMap"
    and "selectorOfNode E node (functionDefinitionKindToFunctionType (fd_kind node))
           (astVisibilityToVisibility E (fd_visibility node)) = Inr (cf_selector func)"
    and "cf_paramTypes func =
           paramTypesOfAbi (matchingFunctionAbi E (cf_selector func) functionAbis)"
  using assms
  by (auto simp: newContractFunction_def Let_def split: sum.splits)

lemma process_function_appends:
  assumes "processFunctionDefinitionAstNode E node contract file functionAbis s = Inr s'"
    and "fd_implemented node \<noteq> Some False"
    and "st_files s file = Some f"
  shows "\<exists>func. newContractFunction E node (fileIdToSourceFile s) contract functionAbis = Inr func
           \<and> st_files s' file = Some (f\<lparr>sf_functions := sf_functions f @ [func]\<rparr>)"
  using assms
  by (auto simp: processFunctionDefinitionAstNode_def addFunction_def addLocalFunction_def
           split: sum.splits option.splits)

lemma kind_FUNCTION:
  "(functionDefinitionKindToFunctionType kind = FUNCTION) =
     (kind \<noteq> Some ''constructor'' \<and> kind \<noteq> Some ''fallback''
      \<and> kind \<noteq> Some ''receive'' \<and> kind \<noteq> Some ''freeFunction'')"
  by (simp add: functionDefinitionKindToFunctionType_def)

lemma sample_function_runs:
  "\<exists>s'. processFunctionDefinitionAstNode sampleExt sampleFunction None ''a.sol'' None sampleState
          = Inr s'"
  by (simp add: processFunctionDefinitionAstNode_def newContractFunction_def selectorOfNode_def
        astFunctionDefinitionToSelector_def sampleExt_def sampleFunction_def uintParam_def
        functionDefinitionKindToFunctionType_def)

text \<open>
  Whatever the imported functions compute, a function definition that is processed and
  not skipped appends one function to the list of its file, and that function has a
  selector if and only if its type is \<open>FUNCTION\<close> and its visibility is \<open>PUBLIC\<close> or
  \<open>EXTERNAL\<close>.
\<close>

lemma selector_present_iff_public_or_external_function:
  assumes "processFunctionDefinitionAstNode E node contract file functionAbis s = Inr s'"
    and "fd_implemented node \<noteq> Some False"
    and "st_files s file = Some f"
  shows "\<exists>func. st_files s' file = Some (f\<lparr>sf_functions := sf_functions f @ [func]\<rparr>)
           \<and> (cf_type func = FUNCTION \<longleftrightarrow>
                fd_kind node \<noteq> Some ''constructor'' \<and> fd_kind node \<noteq> Some ''fallback''
                \<and> fd_kind node \<noteq> Some ''receive'' \<and> fd_kind node \<noteq> Some ''freeFunction'')
           \<and> (cf_selector func \<noteq> None \<longleftrightarrow>
                cf_type func = FUNCTION
                \<and> (cf_visibility func = Some PUBLIC \<or> cf_visibility func = Some EXTERNAL))"
proof -
  from process_function_appends [OF assms] obtain func where
    new: "newContractFunction E node (fileIdToSourceFile s) contract functionAbis = Inr func"
    and fileq: "st_files s' file = Some (f\<lparr>sf_functions := sf_functions f @ [func]\<rparr>)"
    by blast
  have ty: "cf_type func = functionDefinitionKindToFunctionType (fd_kind node)"
    and vis: "cf_visibility func = Some (astVisibilityToVisibility E (fd_visibility node))"
    using newContractFunction_fields [OF new] by simp_all
  have sel: "(cf_selector func \<noteq> None) =
      (cf_type func = FUNCTION
       \<and> (cf_visibility func = Some PUBLIC \<or> cf_visibility func = Some EXTERNAL))"
    using selectorOfNode_Some [OF newContractFunction_fields(6) [OF new]] ty vis by simp
  have "(cf_type func = FUNCTION) =
      (fd_kind node \<noteq> Some ''constructor'' \<and> fd_kind node \<noteq> Some ''fallback''
       \<and> fd_kind node \<noteq> Some ''receive'' \<and> fd_kind node \<noteq> Some ''freeFunction'')"
    using ty kind_FUNCTION [of "fd_kind node"] by simp
  with fileq sel show ?thesis
    by (intro exI [of _ func]) simp
qed








text \<open>
  The selector of the sample function is the four bytes that the AST gives. A selector of
  the AST with another number of digits gives another number of bytes: the builder does
  not look at its length.
\<close>

lemma explicit_selector_value:
  "astFunctionDefinitionToSelector sampleExt explicitFunction = Inr [0xb3, 0xde, 0x64, 0x8b]"
  by (simp add: astFunctionDefinitionToSelector_def explicitFunction_def hexDigit_def)

lemma explicit_selector_other_length:
  "astFunctionDefinitionToSelector E (node\<lparr>fd_functionSelector := Some ''b3de648b00''\<rparr>)
     = Inr [0xb3, 0xde, 0x64, 0x8b, 0]"
  by (simp add: astFunctionDefinitionToSelector_def hexDigit_def)

text \<open>
  C7. A function definition whose \<^verbatim>\<open>implemented\<close> flag is false is skipped: processing it
  returns the state as it was, whatever its location, visibility or parameters are.
\<close>

theorem unimplemented_function_skipped:
  "fd_implemented node = Some False \<Longrightarrow>
     processFunctionDefinitionAstNode E node contract file functionAbis s = Inr s"
  by (simp add: processFunctionDefinitionAstNode_def)

theorem unimplemented_function_skipped_witness:
  "fd_implemented unimplementedFunction = Some False
   \<and> processFunctionDefinitionAstNode sampleExt unimplementedFunction (Some (''a.sol'', 0)) ''a.sol''
        (Some overloadedAbi) sampleState = Inr sampleState"
proof -
  have h: "fd_implemented unimplementedFunction = Some False"
    by (simp add: unimplementedFunction_def)
  with unimplemented_function_skipped [OF h] show ?thesis by simp
qed

text \<open>
  The same declaration with a body is processed, and computing its selector raises: the
  skip comes before the selector.
\<close>

lemma implemented_function_not_skipped:
  "processFunctionDefinitionAstNode sampleExt (unimplementedFunction\<lparr>fd_implemented := None\<rparr>)
     (Some (''a.sol'', 0)) ''a.sol'' (Some overloadedAbi) sampleState = Inl TypeNameUndefined"
  by (simp add: processFunctionDefinitionAstNode_def newContractFunction_def selectorOfNode_def
        astFunctionDefinitionToSelector_def sampleExt_def sampleFunction_def
        unimplementedFunction_def functionDefinitionKindToFunctionType_def)

subsection \<open>Selectors\<close>

lemma paramTypesLoop_canonical:
  "paramTypesLoop E params acc =
     (case allSome (map (canonicalParamType E) params) of
        None \<Rightarrow> Inl TypeNameUndefined
      | Some types \<Rightarrow> Inr (acc @ types))"
proof (induction params arbitrary: acc)
  case Nil
  show ?case by simp
next
  case (Cons param rest)
  show ?case
    by (simp add: Cons.IH canonicalParamType_def split: option.splits)
qed

text \<open>
  C2. The selector computed for a function definition is the hex-decoded
  \<^verbatim>\<open>functionSelector\<close> of the node when it has one; otherwise it is the hash of the name
  with the canonical types of the parameters (\<^verbatim>\<open>address\<close> for a contract, \<^verbatim>\<open>uint8\<close> for an
  enum, the declared type string for an array, a function type or a mapping, the
  canonical ABI form of the type name for the rest), and computing it raises when a
  parameter of the last kind has no type name.
\<close>

theorem selector_explicit_or_canonical_hash:
  "astFunctionDefinitionToSelector E functionDefinition =
     (case fd_functionSelector functionDefinition of
        Some functionSelector \<Rightarrow> Inr (bufferFromHex functionSelector)
      | None \<Rightarrow>
          (case allSome (map (canonicalParamType E) (fd_parameters functionDefinition)) of
             None \<Rightarrow> Inl TypeNameUndefined
           | Some types \<Rightarrow> Inr (methodID E (fd_name functionDefinition) types)))"
  by (simp add: astFunctionDefinitionToSelector_def paramTypesLoop_canonical
           split: option.splits)

lemma find_filter: "find P (filter Q xs) = find (\<lambda>x. Q x \<and> P x) xs"
  by (induction xs) auto

lemma functionAbiMatches_named:
  "(ae_name entry = Some n \<and> functionAbiMatches E selector entry)
     = (ae_name entry = Some n \<and> selector = Some (methodID E n (abiInputTypes entry)))"
  by (auto simp: functionAbiMatches_def abiInputTypes_def split: option.splits)

lemma paramTypesOfAbi_eq:
  "paramTypesOfAbi m = (case m of None \<Rightarrow> None | Some entry \<Rightarrow> map_option (map ai_type) (ae_inputs entry))"
  by (simp add: paramTypesOfAbi_def split: option.splits)

lemma sample_overload_runs:
  "\<exists>s'. processFunctionDefinitionAstNode sampleExt sampleFunction (Some (''a.sol'', 0)) ''a.sol''
           (Some (filter (\<lambda>abiEntry. ae_name abiEntry = Some (fd_name sampleFunction)) overloadedAbi))
           contractState = Inr s'"
  by (simp add: processFunctionDefinitionAstNode_def newContractFunction_def selectorOfNode_def
        astFunctionDefinitionToSelector_def sampleExt_def sampleFunction_def uintParam_def
        functionDefinitionKindToFunctionType_def)

text \<open>
  C6. A function definition nested in a contract is given the ABI entries of the contract
  that have its name. Its parameter types are those declared by the first entry of the ABI
  that has its name and whose selector, recomputed from the name and the declared input
  types of the entry, equals the selector of the function; when no entry matches (or the
  function has no selector), the function has no parameter type list.
\<close>

theorem overload_matched_by_selector:
  assumes "processFunctionDefinitionAstNode E node (Some contract) file
             (Some (filter (\<lambda>abiEntry. ae_name abiEntry = Some (fd_name node)) contractAbi)) s
           = Inr s'"
    and "fd_implemented node \<noteq> Some False"
    and "st_files s file = Some f"
  shows "\<exists>func. st_files s' file = Some (f\<lparr>sf_functions := sf_functions f @ [func]\<rparr>)
           \<and> cf_paramTypes func =
               (case find (\<lambda>entry. ae_name entry = Some (fd_name node)
                                    \<and> cf_selector func
                                        = Some (methodID E (fd_name node) (abiInputTypes entry)))
                       contractAbi of
                  None \<Rightarrow> None
                | Some entry \<Rightarrow> map_option (map ai_type) (ae_inputs entry))"
proof -
  from process_function_appends [OF assms] obtain func where
    new: "newContractFunction E node (fileIdToSourceFile s) (Some contract)
            (Some (filter (\<lambda>abiEntry. ae_name abiEntry = Some (fd_name node)) contractAbi))
          = Inr func"
    and fileq: "st_files s' file = Some (f\<lparr>sf_functions := sf_functions f @ [func]\<rparr>)"
    by blast
  have "cf_paramTypes func =
      paramTypesOfAbi (find (\<lambda>entry. ae_name entry = Some (fd_name node)
                                      \<and> functionAbiMatches E (cf_selector func) entry) contractAbi)"
    using newContractFunction_fields(7) [OF new]
    by (simp add: matchingFunctionAbi_def find_filter)
  then have "cf_paramTypes func =
      paramTypesOfAbi (find (\<lambda>entry. ae_name entry = Some (fd_name node)
                                    \<and> cf_selector func
                                        = Some (methodID E (fd_name node) (abiInputTypes entry)))
                       contractAbi)"
    by (simp only: functionAbiMatches_named)
  with fileq show ?thesis
    by (intro exI [of _ func]) (simp add: paramTypesOfAbi_eq)
qed

theorem overload_matched_witness:
  "\<exists>s' func.
     processFunctionDefinitionAstNode sampleExt sampleFunction (Some (''a.sol'', 0)) ''a.sol''
       (Some (filter (\<lambda>abiEntry. ae_name abiEntry = Some (fd_name sampleFunction)) overloadedAbi))
       contractState = Inr s'
     \<and> st_files s' ''a.sol'' = Some (sampleFile\<lparr>sf_functions := sf_functions sampleFile @ [func]\<rparr>)
     \<and> cf_paramTypes func =
         (case find (\<lambda>entry. ae_name entry = Some (fd_name sampleFunction)
                              \<and> cf_selector func
                                  = Some (methodID sampleExt (fd_name sampleFunction)
                                            (abiInputTypes entry)))
                 overloadedAbi of
            None \<Rightarrow> None
          | Some entry \<Rightarrow> map_option (map ai_type) (ae_inputs entry))"
proof -
  from sample_overload_runs obtain s' where
    run: "processFunctionDefinitionAstNode sampleExt sampleFunction (Some (''a.sol'', 0)) ''a.sol''
       (Some (filter (\<lambda>abiEntry. ae_name abiEntry = Some (fd_name sampleFunction)) overloadedAbi))
       contractState = Inr s'" by blast
  have impl: "fd_implemented sampleFunction \<noteq> Some False" by (simp add: sampleFunction_def)
  have fileq: "st_files contractState ''a.sol'' = Some sampleFile"
    by (simp add: contractState_def sampleState_def emptyState_def)
  from overload_matched_by_selector [OF run impl fileq] run show ?thesis
    by blast
qed

text \<open>
  On the sample, the function \<^verbatim>\<open>f(uint x)\<close> is matched with the overload \<^verbatim>\<open>f(uint256)\<close>,
  the third entry of the ABI, and not with \<^verbatim>\<open>f(address)\<close>, the first.
\<close>

lemma sample_overload_value:
  "newContractFunction sampleExt sampleFunction [(0, ''a.sol'')] (Some (''a.sol'', 0))
     (Some (filter (\<lambda>abiEntry. ae_name abiEntry = Some (fd_name sampleFunction)) overloadedAbi))
   = Inr \<lparr>cf_name = ''f'', cf_type = FUNCTION,
          cf_location = Some \<lparr>sl_file = ''a.sol'', sl_offset = 0, sl_length = 10\<rparr>,
          cf_contract = Some (''a.sol'', 0), cf_visibility = Some EXTERNAL,
          cf_isPayable = Some False, cf_selector = Some [102, 117, 105, 110],
          cf_paramTypes = Some [''uint256'']\<rparr>"
  by (simp add: newContractFunction_def selectorOfNode_def astFunctionDefinitionToSelector_def
        sampleExt_def sampleFunction_def uintParam_def functionDefinitionKindToFunctionType_def
        overloadedAbi_def matchingFunctionAbi_def paramTypesOfAbi_def functionAbiMatches_def
        sampleMethodID_def astSrcToSourceLocation_def sampleSrc_def)

subsection \<open>Bytecodes and custom errors\<close>

lemma addCustomError_fields [simp]:
  "st_files (addCustomError contract customError s) = st_files s"
  "fileIdToSourceFile (addCustomError contract customError s) = fileIdToSourceFile s"
  "contractIdToContract (addCustomError contract customError s) = contractIdToContract s"
  "contractIdToLinearizedBaseContractIds (addCustomError contract customError s)
     = contractIdToLinearizedBaseContractIds s"
  "st_log (addCustomError contract customError s) = st_log s"
  by (simp_all add: addCustomError_def split: option.splits)

lemma log_fields [simp]:
  "st_files (log msg s) = st_files s"
  "st_contracts (log msg s) = st_contracts s"
  "fileIdToSourceFile (log msg s) = fileIdToSourceFile s"
  "contractIdToContract (log msg s) = contractIdToContract s"
  "contractIdToLinearizedBaseContractIds (log msg s) = contractIdToLinearizedBaseContractIds s"
  "st_log (log msg s) = st_log s @ [msg]"
  by (simp_all add: log_def)

lemma customErrorsLoop_fields [simp]:
  "st_files (customErrorsLoop E contract contractAbi s) = st_files s"
  "fileIdToSourceFile (customErrorsLoop E contract contractAbi s) = fileIdToSourceFile s"
  "contractIdToContract (customErrorsLoop E contract contractAbi s) = contractIdToContract s"
  "contractIdToLinearizedBaseContractIds (customErrorsLoop E contract contractAbi s)
     = contractIdToLinearizedBaseContractIds s"
  by (induction contractAbi arbitrary: s; simp split: option.splits)+

lemma customErrorsLoop_log:
  "st_log (customErrorsLoop E contract contractAbi s)
     = st_log s @ map errorMessage (failedErrorEntries E contractAbi)"
  by (induction contractAbi arbitrary: s)
     (simp_all add: failedErrorEntries_def split: option.splits)

lemma customErrorsLoop_contracts:
  "st_contracts s contract = Some c \<Longrightarrow>
     st_contracts (customErrorsLoop E contract contractAbi s)
       = (st_contracts s)(contract \<mapsto>
            c\<lparr>c_customErrors := c_customErrors c @ customErrorsOfAbi E contractAbi\<rparr>)"
proof (induction contractAbi arbitrary: s c)
  case Nil
  then show ?case by (simp add: customErrorsOfAbi_def fun_upd_idem)
next
  case (Cons abiItem rest)
  show ?case
  proof (cases "ae_type abiItem = ''error''")
    case False
    with Cons show ?thesis by (simp add: customErrorsOfAbi_def)
  next
    case True
    show ?thesis
    proof (cases "customErrorFromABI E (ae_name abiItem) (ae_inputs abiItem)")
      case None
      have "st_contracts (log (errorMessage abiItem) s) contract = Some c"
        using Cons.prems by simp
      from Cons.IH [OF this] True None show ?thesis
        by (simp add: customErrorsOfAbi_def fun_eq_iff)
    next
      case (Some customError)
      let ?c = "c\<lparr>c_customErrors := c_customErrors c @ [customError]\<rparr>"
      have "st_contracts (addCustomError contract customError s) contract = Some ?c"
        using Cons.prems by (simp add: addCustomError_def)
      from Cons.IH [OF this] True Some Cons.prems show ?thesis
        by (simp add: customErrorsOfAbi_def addCustomError_def fun_eq_iff)
    qed
  qed
qed

lemma customErrorsLoop_append:
  "customErrorsLoop E contract (xs @ ys) s
     = customErrorsLoop E contract ys (customErrorsLoop E contract xs s)"
  by (induction xs arbitrary: s) (simp_all split: option.splits)

lemma decodeEvmBytecode_fields [simp]:
  "bc_contract (decodeEvmBytecode E contract solcVersion isDeployment compilerBytecode fileMap)
     = contract"
  "bc_isDeployment (decodeEvmBytecode E contract solcVersion isDeployment compilerBytecode fileMap)
     = isDeployment"
  "bc_normalizedCode (decodeEvmBytecode E contract solcVersion isDeployment compilerBytecode fileMap)
     = normalizeCompilerOutputBytecode E (cb_object compilerBytecode)
         (getLibraryAddressPositions E compilerBytecode)"
  by (simp_all add: decodeEvmBytecode_def Let_def)

lemma decodeContract_eq:
  assumes "st_contracts s contract = Some c"
    and "c_location c = Some location"
    and "st_files s (sl_file location) = Some f"
    and "map_of (out_contracts compilerOutput) (sf_sourceName f) = Some fileContracts"
    and "map_of fileContracts (c_name c) = Some contractOutput"
  shows "decodeContract E solcVersion compilerOutput contract s =
           Inr (customErrorsLoop E contract (co_abi contractOutput) s,
                if cb_object (co_bytecode contractOutput) = [] then []
                else [decodeEvmBytecode E contract solcVersion True (co_bytecode contractOutput)
                        (fileIdToSourceFile s),
                      decodeEvmBytecode E contract solcVersion False
                        (co_deployedBytecode contractOutput) (fileIdToSourceFile s)])"
  using assms by (simp add: decodeContract_def Let_def)

lemma customErrorsLoop_store_only:
  "st_contracts s = st_contracts t \<Longrightarrow>
     st_contracts (customErrorsLoop E contract contractAbi s)
       = st_contracts (customErrorsLoop E contract contractAbi t)"
proof (induction contractAbi arbitrary: s t)
  case Nil
  then show ?case by simp
next
  case (Cons abiItem rest)
  have add: "\<And>e. st_contracts (addCustomError contract e s)
                   = st_contracts (addCustomError contract e t)"
    using Cons.prems by (simp add: addCustomError_def split: option.splits)
  have lg: "st_contracts (log (errorMessage abiItem) s) = st_contracts (log (errorMessage abiItem) t)"
    using Cons.prems by simp
  show ?case
    using Cons.IH [OF add] Cons.IH [OF lg] Cons.IH [OF Cons.prems]
    by (simp split: option.splits)
qed

lemma addCustomError_name_location:
  "map_option (\<lambda>c. (c_name c, c_location c)) (st_contracts (addCustomError contract e s) a)
     = map_option (\<lambda>c. (c_name c, c_location c)) (st_contracts s a)"
  by (simp add: addCustomError_def split: option.splits)

lemma customErrorsLoop_name_location:
  "map_option (\<lambda>c. (c_name c, c_location c))
       (st_contracts (customErrorsLoop E contract contractAbi s) a)
     = map_option (\<lambda>c. (c_name c, c_location c)) (st_contracts s a)"
  by (induction contractAbi arbitrary: s)
     (simp_all add: addCustomError_name_location split: option.splits)

lemma sameButErrors_customErrorsLoop:
  "sameButErrors s t \<Longrightarrow>
     sameButErrors (customErrorsLoop E contract abi s) (customErrorsLoop E' contract abi' t)"
  by (simp add: sameButErrors_def customErrorsLoop_name_location comp_def)

lemma decodeEvmBytecode_customErrorFromABI [simp]:
  "decodeEvmBytecode (E\<lparr>customErrorFromABI := g\<rparr>) = decodeEvmBytecode E"
  by (simp add: decodeEvmBytecode_def fun_eq_iff)

lemma sameButErrors_lookup:
  assumes "sameButErrors s t"
  shows "(st_contracts s a = None) = (st_contracts t a = None)"
    and "st_contracts s a = Some c \<Longrightarrow> st_contracts t a = Some d \<Longrightarrow>
           c_name c = c_name d \<and> c_location c = c_location d"
proof -
  have eq: "map_option (\<lambda>c. (c_name c, c_location c)) (st_contracts s a)
              = map_option (\<lambda>c. (c_name c, c_location c)) (st_contracts t a)"
    using assms by (auto simp: sameButErrors_def comp_def dest: fun_cong [of _ _ a])
  show "(st_contracts s a = None) = (st_contracts t a = None)"
    using eq by (cases "st_contracts s a"; cases "st_contracts t a") simp_all
  show "st_contracts s a = Some c \<Longrightarrow> st_contracts t a = Some d \<Longrightarrow>
           c_name c = c_name d \<and> c_location c = c_location d"
    using eq by simp
qed

lemma decodeContract_independent:
  assumes rel: "sameButErrors s t"
  shows "rel_sum (=) (\<lambda>r r'. sameButErrors (fst r) (fst r') \<and> snd r = snd r')
           (decodeContract E solcVersion compilerOutput contract s)
           (decodeContract (E\<lparr>customErrorFromABI := g\<rparr>) solcVersion compilerOutput contract t)"
proof (cases "st_contracts s contract")
  case None
  with sameButErrors_lookup(1) [OF rel, of contract] show ?thesis
    by (simp add: decodeContract_def)
next
  case (Some c)
  with sameButErrors_lookup(1) [OF rel, of contract] obtain d where
    d: "st_contracts t contract = Some d" by auto
  from sameButErrors_lookup(2) [OF rel Some d] have
    nm: "c_name d = c_name c" and loc: "c_location d = c_location c" by simp_all
  have files: "st_files t = st_files s" and fm: "fileIdToSourceFile t = fileIdToSourceFile s"
    using rel by (simp_all add: sameButErrors_def)
  show ?thesis
    using Some d nm loc files fm sameButErrors_customErrorsLoop [OF rel]
    by (simp add: decodeContract_def Let_def split: option.splits)
qed

lemma decodeBytecodesLoop_independent:
  "sameButErrors s t \<Longrightarrow>
     rel_sum (=) (\<lambda>r r'. sameButErrors (fst r) (fst r') \<and> snd r = snd r')
       (decodeBytecodesLoop E solcVersion compilerOutput contracts s bytecodes)
       (decodeBytecodesLoop (E\<lparr>customErrorFromABI := g\<rparr>) solcVersion compilerOutput contracts t
          bytecodes)"
proof (induction contracts arbitrary: s t bytecodes)
  case Nil
  then show ?case by simp
next
  case (Cons contract rest)
  let ?A = "decodeContract E solcVersion compilerOutput contract s"
  let ?B = "decodeContract (E\<lparr>customErrorFromABI := g\<rparr>) solcVersion compilerOutput contract t"
  have R: "rel_sum (=) (\<lambda>r r'. sameButErrors (fst r) (fst r') \<and> snd r = snd r') ?A ?B"
    by (rule decodeContract_independent [OF Cons.prems])
  show ?case
  proof (cases ?A)
    case (Inl e)
    with R show ?thesis by (cases ?B) simp_all
  next
    case (Inr r)
    with R obtain r' where r': "?B = Inr r'" "sameButErrors (fst r) (fst r')" "snd r = snd r'"
      by (cases ?B) simp_all
    show ?thesis
      using Inr r'(1,3) Cons.IH [OF r'(2), of "bytecodes @ snd r"]
      by (simp add: case_prod_beta)
  qed
qed

lemma sameButErrors_refl: "sameButErrors s s"
  by (simp add: sameButErrors_def)

lemma decodeBytecodes_independent:
  "map_sum id snd (decodeBytecodes (E\<lparr>customErrorFromABI := g\<rparr>) solcVersion compilerOutput s)
     = map_sum id snd (decodeBytecodes E solcVersion compilerOutput s)"
proof -
  have "rel_sum (=) (\<lambda>r r'. sameButErrors (fst r) (fst r') \<and> snd r = snd r')
          (decodeBytecodes E solcVersion compilerOutput s)
          (decodeBytecodes (E\<lparr>customErrorFromABI := g\<rparr>) solcVersion compilerOutput s)"
    unfolding decodeBytecodes_def
    by (rule decodeBytecodesLoop_independent [OF sameButErrors_refl])
  then show ?thesis
    by (cases "decodeBytecodes E solcVersion compilerOutput s";
        cases "decodeBytecodes (E\<lparr>customErrorFromABI := g\<rparr>) solcVersion compilerOutput s")
       simp_all
qed

text \<open>
  C5. An \<^verbatim>\<open>error\<close> entry of the ABI from which no custom error can be built is skipped
  with a message: the loop goes on with the entries after it from the state it had
  reached, with the message logged; the contracts are as if the entry were absent; and
  neither the bytecodes returned by \<^verbatim>\<open>decodeBytecodes\<close> nor whether it raises depend on
  what the construction of custom errors returns.
\<close>

theorem failed_custom_error_skipped:
  assumes "ae_type abiItem = ''error''"
    and "customErrorFromABI E (ae_name abiItem) (ae_inputs abiItem) = None"
  shows "customErrorsLoop E contract (before @ abiItem # after) s
           = customErrorsLoop E contract after
               (log (errorMessage abiItem) (customErrorsLoop E contract before s))
         \<and> st_contracts (customErrorsLoop E contract (before @ abiItem # after) s)
             = st_contracts (customErrorsLoop E contract (before @ after) s)
         \<and> map_sum id snd (decodeBytecodes (E\<lparr>customErrorFromABI := g\<rparr>) solcVersion
                              compilerOutput t)
             = map_sum id snd (decodeBytecodes E solcVersion compilerOutput t)"
proof -
  have step: "customErrorsLoop E contract (before @ abiItem # after) s
           = customErrorsLoop E contract after
               (log (errorMessage abiItem) (customErrorsLoop E contract before s))"
    using assms by (simp add: customErrorsLoop_append)
  have "st_contracts (customErrorsLoop E contract after
               (log (errorMessage abiItem) (customErrorsLoop E contract before s)))
          = st_contracts (customErrorsLoop E contract after (customErrorsLoop E contract before s))"
    by (rule customErrorsLoop_store_only) simp
  with step show ?thesis
    by (simp add: customErrorsLoop_append decodeBytecodes_independent)
qed

theorem failed_custom_error_witness:
  "ae_type badError = ''error''
   \<and> customErrorFromABI sampleExt (ae_name badError) (ae_inputs badError) = None
   \<and> customErrorsLoop sampleExt (''a.sol'', 0) ([goodError] @ badError # [goodError]) contractState
       = customErrorsLoop sampleExt (''a.sol'', 0) [goodError]
           (log (errorMessage badError)
              (customErrorsLoop sampleExt (''a.sol'', 0) [goodError] contractState))
   \<and> st_contracts
         (customErrorsLoop sampleExt (''a.sol'', 0) ([goodError] @ badError # [goodError])
            contractState)
       = st_contracts
           (customErrorsLoop sampleExt (''a.sol'', 0) ([goodError] @ [goodError]) contractState)"
proof -
  have h1: "ae_type badError = ''error''" by (simp add: badError_def)
  have h2: "customErrorFromABI sampleExt (ae_name badError) (ae_inputs badError) = None"
    by (simp add: badError_def sampleExt_def)
  from failed_custom_error_skipped [OF h1 h2] h1 h2 show ?thesis by blast
qed

lemma sample_failed_error_logged:
  "st_log (customErrorsLoop sampleExt (''a.sol'', 0) [badError, goodError] contractState)
     = [''Couldn't build CustomError for error '' @ [CHR 0x27] @ ''Broken'' @ [CHR 0x27]]"
  by (simp add: customErrorsLoop_log failedErrorEntries_def badError_def goodError_def
        sampleExt_def errorMessage_def nameText_def contractState_def sampleState_def
        emptyState_def)

subsection \<open>Sources, contracts and inheritance\<close>

lemma addFunction_Some:
  "st_files s file = Some f \<Longrightarrow>
     addFunction file func s
       = s\<lparr>st_files := (st_files s)(file \<mapsto> f\<lparr>sf_functions := sf_functions f @ [func]\<rparr>)\<rparr>"
  by (simp add: addFunction_def)

lemma addLocalFunction_Some:
  "st_contracts s contract = Some c \<Longrightarrow>
     addLocalFunction contract func s
       = s\<lparr>st_contracts :=
             (st_contracts s)(contract \<mapsto> c\<lparr>c_localFunctions := c_localFunctions c @ [func]\<rparr>)\<rparr>"
  by (simp add: addLocalFunction_def)

lemma withFunctions_Nil:
  "st_files s file = Some f \<Longrightarrow> st_contracts s contract = Some c \<Longrightarrow>
     withFunctions file f contract c [] s = s"
  by (simp add: withFunctions_def fun_upd_idem)

lemma withFunctions_Cons:
  "withFunctions file (f\<lparr>sf_functions := sf_functions f @ [func]\<rparr>) contract
       (c\<lparr>c_localFunctions := c_localFunctions c @ [func]\<rparr>) funcs
       (addFunction' s)
     = withFunctions file f contract c (func # funcs) s"
  if "addFunction' s = withFunctions file f contract c [func] s"
  using that by (simp add: withFunctions_def)

lemma add_both:
  "st_files s file = Some f \<Longrightarrow> st_contracts s contract = Some c \<Longrightarrow>
     addFunction file func (addLocalFunction contract func s)
       = withFunctions file f contract c [func] s"
  by (simp add: addFunction_def addLocalFunction_def withFunctions_def)

lemma withFunctions_lookup:
  "st_files (withFunctions file f contract c funcs s) file
     = Some (f\<lparr>sf_functions := sf_functions f @ funcs\<rparr>)"
  "st_contracts (withFunctions file f contract c funcs s) contract
     = Some (c\<lparr>c_localFunctions := c_localFunctions c @ funcs\<rparr>)"
  "fileIdToSourceFile (withFunctions file f contract c funcs s) = fileIdToSourceFile s"
  by (simp_all add: withFunctions_def)

lemma withFunctions_twice:
  "withFunctions file (f\<lparr>sf_functions := sf_functions f @ [func]\<rparr>) contract
       (c\<lparr>c_localFunctions := c_localFunctions c @ [func]\<rparr>) funcs
       (withFunctions file f contract c [func] s)
     = withFunctions file f contract c (func # funcs) s"
  by (simp add: withFunctions_def)

lemma processContractNodes_eq:
  "st_files s file = Some f \<Longrightarrow> st_contracts s contract = Some c \<Longrightarrow>
     processContractNodes E file contract contractAbi nodes s
       = (case memberFunctions E (fileIdToSourceFile s) contract contractAbi nodes of
            Inl e \<Rightarrow> Inl e
          | Inr funcs \<Rightarrow> Inr (withFunctions file f contract c funcs s))"
proof (induction nodes arbitrary: s f c)
  case Nil
  then show ?case by (simp add: withFunctions_Nil)
next
  case (Cons member rest)
  note fs = Cons.prems
  have step: "\<And>func. processContractNodes E file contract contractAbi rest
                  (withFunctions file f contract c [func] s)
       = (case memberFunctions E (fileIdToSourceFile s) contract contractAbi rest of
            Inl e \<Rightarrow> Inl e
          | Inr funcs \<Rightarrow> Inr (withFunctions file f contract c (func # funcs) s))"
    using Cons.IH [OF withFunctions_lookup(1) withFunctions_lookup(2)]
    by (simp add: withFunctions_lookup(3) withFunctions_twice split: sum.splits)
  show ?case
  proof (cases member)
    case (FunctionDefinitionNode node)
    show ?thesis
    proof (cases "fd_implemented node = Some False")
      case True
      with FunctionDefinitionNode Cons.IH [OF fs] show ?thesis
        by (simp add: processFunctionDefinitionAstNode_def)
    next
      case False
      with FunctionDefinitionNode fs step show ?thesis
        by (simp add: processFunctionDefinitionAstNode_def add_both split: sum.splits)
    qed
  next
    case (ModifierDefinitionNode node)
    with fs step Cons.IH [OF fs] show ?thesis
      by (simp add: add_both split: option.splits sum.splits)
  next
    case (VariableDeclarationNode node)
    with fs step Cons.IH [OF fs] show ?thesis
      by (simp add: add_both split: option.splits sum.splits)
  next
    case (OtherMember nodeType)
    with Cons.IH [OF fs] show ?thesis by simp
  qed
qed

lemma withSummary_Nil:
  "st_files s file = Some f \<Longrightarrow> withSummary file f [] [] s = s"
  by (simp add: withSummary_def registerContracts_def fun_upd_idem)

lemma withSummary_fields:
  "fileIdToSourceFile (withSummary file f fs cs s) = fileIdToSourceFile s"
  "st_files (withSummary file f fs cs s)
     = (st_files s)(file \<mapsto> f\<lparr>sf_functions := sf_functions f @ fs\<rparr>)"
  "st_log (withSummary file f fs cs s) = st_log s"
  by (simp_all add: withSummary_def registerContracts_def)

lemma contract_step:
  "withSummary file (f\<lparr>sf_functions := sf_functions f @ funcs\<rparr>) fs cs
     (withFunctions file f contract newc funcs
        (s\<lparr>st_contracts := (st_contracts s)(contract \<mapsto> newc),
           contractIdToContract := AList.update cid contract (contractIdToContract s),
           contractIdToLinearizedBaseContractIds :=
             AList.update cid ids (contractIdToLinearizedBaseContractIds s)\<rparr>))
   = withSummary file f (funcs @ fs)
       (\<lparr>nc_id = cid, nc_address = contract,
         nc_contract = newc\<lparr>c_localFunctions := c_localFunctions newc @ funcs\<rparr>,
         nc_baseIds = ids\<rparr> # cs) s"
  by (simp add: withSummary_def withFunctions_def registerContracts_def putContract_def)

lemma function_step:
  "withSummary file (f\<lparr>sf_functions := sf_functions f @ [func]\<rparr>) fs cs
     (s\<lparr>st_files := (st_files s)(file \<mapsto> f\<lparr>sf_functions := sf_functions f @ [func]\<rparr>)\<rparr>)
   = withSummary file f (func # fs) cs s"
  by (simp add: withSummary_def registerContracts_def)

lemma processContractAstNode_eq:
  assumes "st_files s file = Some f"
  shows "processContractAstNode E file contract node contractType contractAbi s
     = (case memberFunctions E (fileIdToSourceFile s) contract contractAbi (cd_nodes node) of
          Inl e \<Rightarrow> Inl e
        | Inr funcs \<Rightarrow>
            Inr (withFunctions file f contract
                   \<lparr>c_name = cd_name node, c_type = contractType,
                    c_location = astSrcToSourceLocation (cd_src node) (fileIdToSourceFile s),
                    c_localFunctions = [], c_linearizedBaseContracts = [],
                    c_customErrors = []\<rparr> funcs
                   (s\<lparr>st_contracts := (st_contracts s)(contract \<mapsto>
                         \<lparr>c_name = cd_name node, c_type = contractType,
                          c_location = astSrcToSourceLocation (cd_src node) (fileIdToSourceFile s),
                          c_localFunctions = [], c_linearizedBaseContracts = [],
                          c_customErrors = []\<rparr>),
                      contractIdToContract :=
                        AList.update (cd_id node) contract (contractIdToContract s),
                      contractIdToLinearizedBaseContractIds :=
                        AList.update (cd_id node) (cd_linearizedBaseContracts node)
                          (contractIdToLinearizedBaseContractIds s)\<rparr>)))"
proof -
  let ?c = "\<lparr>c_name = cd_name node, c_type = contractType,
             c_location = astSrcToSourceLocation (cd_src node) (fileIdToSourceFile s),
             c_localFunctions = [], c_linearizedBaseContracts = [], c_customErrors = []\<rparr>"
  let ?s3 = "s\<lparr>st_contracts := (st_contracts s)(contract \<mapsto> ?c),
               contractIdToContract := AList.update (cd_id node) contract (contractIdToContract s),
               contractIdToLinearizedBaseContractIds :=
                 AList.update (cd_id node) (cd_linearizedBaseContracts node)
                   (contractIdToLinearizedBaseContractIds s)\<rparr>"
  have a: "st_files ?s3 file = Some f" using assms by simp
  have b: "st_contracts ?s3 contract = Some ?c" by simp
  have "processContractAstNode E file contract node contractType contractAbi s
          = processContractNodes E file contract contractAbi (cd_nodes node) ?s3"
    by (simp add: processContractAstNode_def Let_def)
  also have "\<dots> = (case memberFunctions E (fileIdToSourceFile ?s3) contract contractAbi
                         (cd_nodes node) of
                    Inl e \<Rightarrow> Inl e
                  | Inr funcs \<Rightarrow> Inr (withFunctions file f contract ?c funcs ?s3))"
    by (rule processContractNodes_eq [OF a b])
  finally show ?thesis by simp
qed

lemma processSourceNodes_eq:
  "st_files s file = Some f \<Longrightarrow>
     processSourceNodes E file contractToAbi i nodes s
       = (case sourceSummary E (fileIdToSourceFile s) file contractToAbi i nodes of
            Inl e \<Rightarrow> Inl e
          | Inr (fs, cs) \<Rightarrow> Inr (withSummary file f fs cs s))"
proof (induction nodes arbitrary: s f i)
  case Nil
  then show ?case by (simp add: withSummary_Nil)
next
  case (Cons n rest)
  note fs = Cons.prems
  show ?case
  proof (cases n)
    case (ContractDefinitionNode node)
    show ?thesis
    proof (cases "contractKindToContractType (cd_contractKind node)")
      case None
      with ContractDefinitionNode Cons.IH [OF fs] show ?thesis by simp
    next
      case (Some contractType)
      show ?thesis
        using ContractDefinitionNode Some
        by (simp add: processContractAstNode_eq [OF fs] Cons.IH [OF withFunctions_lookup(1)]
              withFunctions_lookup(3) contract_step split: sum.splits prod.splits)
    qed
  next
    case (TopLevelFunctionNode node)
    show ?thesis
    proof (cases "fd_implemented node = Some False")
      case True
      with TopLevelFunctionNode Cons.IH [OF fs] show ?thesis
        by (simp add: processFunctionDefinitionAstNode_def)
    next
      case False
      have upd: "\<And>func. st_files (s\<lparr>st_files := (st_files s)(file \<mapsto>
                    f\<lparr>sf_functions := sf_functions f @ [func]\<rparr>)\<rparr>) file
                  = Some (f\<lparr>sf_functions := sf_functions f @ [func]\<rparr>)" by simp
      show ?thesis
        using TopLevelFunctionNode False fs
        by (simp add: processFunctionDefinitionAstNode_def addFunction_Some Cons.IH [OF upd]
              function_step split: sum.splits prod.splits)
    qed
  next
    case (OtherNode nodeType)
    with Cons.IH [OF fs] show ?thesis by simp
  qed
qed

lemma processSource_eq:
  "processSource E compilerOutput compilerInput (sourceName, source) s
     = (case map_of compilerInput sourceName of
          None \<Rightarrow> Inl SourceInputUndefined
        | Some content \<Rightarrow>
            (case sourceSummary E (AList.update (cs_id source) sourceName (fileIdToSourceFile s))
                    sourceName (map_of (out_contracts compilerOutput) sourceName) 0
                    (cs_nodes source) of
               Inl e \<Rightarrow> Inl e
             | Inr (fs, cs) \<Rightarrow>
                 Inr (registerContracts cs
                        (s\<lparr>st_files := (st_files s)(sourceName \<mapsto>
                              \<lparr>sf_sourceName = sourceName, sf_content = content,
                               sf_functions = fs\<rparr>),
                           fileIdToSourceFile :=
                             AList.update (cs_id source) sourceName (fileIdToSourceFile s)\<rparr>))))"
proof (cases "map_of compilerInput sourceName")
  case None
  then show ?thesis by (simp add: processSource_def)
next
  case (Some content)
  let ?f = "\<lparr>sf_sourceName = sourceName, sf_content = content, sf_functions = []\<rparr>"
  let ?s = "s\<lparr>st_files := (st_files s)(sourceName \<mapsto> ?f),
              fileIdToSourceFile := AList.update (cs_id source) sourceName (fileIdToSourceFile s)\<rparr>"
  have "st_files ?s sourceName = Some ?f" by simp
  from processSourceNodes_eq [OF this] Some show ?thesis
    by (simp add: processSource_def Let_def withSummary_def registerContracts_def
          split: sum.splits prod.splits)
qed

lemma update_values_subset:
  "snd ` set (AList.update k v al) \<subseteq> insert v (snd ` set al)"
  by (induction al) auto

lemma distinct_update_values:
  "distinct (map snd al) \<Longrightarrow> v \<notin> snd ` set al \<Longrightarrow> distinct (map snd (AList.update k v al))"
proof (induction al)
  case Nil
  then show ?case by simp
next
  case (Cons p ps)
  have "snd p \<notin> snd ` set (AList.update k v ps)"
    using update_values_subset [of k v ps] Cons.prems by auto
  with Cons show ?case by auto
qed

lemma fresh_after_insert:
  "B' \<subseteq> insert x V \<Longrightarrow> \<forall>n \<in> S. f n \<notin> V \<Longrightarrow> x \<notin> f ` S \<Longrightarrow> \<forall>n \<in> S. f n \<notin> B'"
  by blast

lemma subset_after_insert:
  "A \<subseteq> B' \<union> C \<Longrightarrow> B' \<subseteq> insert x B \<Longrightarrow> A \<subseteq> B \<union> insert x C"
  by blast

lemma fold_update_values:
  "distinct (map snd al) \<Longrightarrow> distinct (map nc_address cs) \<Longrightarrow>
   (\<forall>nc \<in> set cs. nc_address nc \<notin> snd ` set al) \<Longrightarrow>
     distinct (map snd (fold (\<lambda>nc. AList.update (nc_id nc) (nc_address nc)) cs al))
     \<and> snd ` set (fold (\<lambda>nc. AList.update (nc_id nc) (nc_address nc)) cs al)
          \<subseteq> snd ` set al \<union> nc_address ` set cs"
proof (induction cs arbitrary: al)
  case Nil
  then show ?case by simp
next
  case (Cons nc cs)
  let ?al = "AList.update (nc_id nc) (nc_address nc) al"
  let ?F = "\<lambda>nc. AList.update (nc_id nc) (nc_address nc)"
  have new: "nc_address nc \<notin> snd ` set al"
    using Cons.prems(3) by (meson list.set_intros(1))
  have old: "\<forall>nc' \<in> set cs. nc_address nc' \<notin> snd ` set al"
    using Cons.prems(3) by (meson list.set_intros(2))
  have dcs: "distinct (map nc_address cs)" and hd: "nc_address nc \<notin> nc_address ` set cs"
    using Cons.prems(2) by simp_all
  have d: "distinct (map snd ?al)"
    by (rule distinct_update_values [OF Cons.prems(1) new])
  have sub: "snd ` set ?al \<subseteq> insert (nc_address nc) (snd ` set al)"
    by (rule update_values_subset)
  have fresh: "\<forall>nc' \<in> set cs. nc_address nc' \<notin> snd ` set ?al"
    by (rule fresh_after_insert [OF sub old hd])
  have ih: "distinct (map snd (fold ?F cs ?al))
            \<and> snd ` set (fold ?F cs ?al) \<subseteq> snd ` set ?al \<union> nc_address ` set cs"
    by (rule Cons.IH [OF d dcs fresh])
  have eq: "fold ?F (nc # cs) al = fold ?F cs ?al" by simp
  have img: "nc_address ` set (nc # cs) = insert (nc_address nc) (nc_address ` set cs)" by simp
  have "snd ` set (fold ?F cs ?al) \<subseteq> snd ` set al \<union> nc_address ` set (nc # cs)"
    unfolding img by (rule subset_after_insert [OF conjunct2 [OF ih] sub])
  with conjunct1 [OF ih] show ?case unfolding eq by (rule conjI)
qed

lemma fold_update_keys:
  "map fst al = map fst al' \<Longrightarrow>
     map fst (fold (\<lambda>nc. AList.update (nc_id nc) (g nc)) cs al)
       = map fst (fold (\<lambda>nc. AList.update (nc_id nc) (h nc)) cs al')"
proof (induction cs arbitrary: al al')
  case Nil
  then show ?case by simp
next
  case (Cons nc cs)
  have "map fst (AList.update (nc_id nc) (g nc) al) = map fst (AList.update (nc_id nc) (h nc) al')"
    using Cons.prems by (simp add: update_keys)
  from Cons.IH [OF this] show ?case by simp
qed

lemma fold_store_Some:
  "fold putContract cs m a = Some c \<Longrightarrow>
     m a = Some c \<or> (\<exists>nc \<in> set cs. nc_address nc = a \<and> nc_contract nc = c)"
proof (induction cs arbitrary: m)
  case Nil
  then show ?case by simp
next
  case (Cons nc cs)
  from Cons.prems have "fold putContract cs (putContract nc m) a = Some c" by simp
  from Cons.IH [OF this] show ?case
    by (cases "a = nc_address nc") (auto simp: putContract_def)
qed

lemma fold_store_dom:
  "m a \<noteq> None \<or> a \<in> nc_address ` set cs \<Longrightarrow>
     fold putContract cs m a \<noteq> None"
proof (induction cs arbitrary: m)
  case Nil
  then show ?case by simp
next
  case (Cons nc cs)
  have "putContract nc m a \<noteq> None \<or> a \<in> nc_address ` set cs"
    using Cons.prems by (auto simp: putContract_def)
  from Cons.IH [of "putContract nc m", OF this] show ?case by simp
qed

lemma sourceSummary_addresses:
  "sourceSummary E fileMap file contractToAbi i nodes = Inr (fs, cs) \<Longrightarrow>
     (\<forall>nc \<in> set cs. fst (nc_address nc) = file \<and> i \<le> snd (nc_address nc)
                      \<and> c_linearizedBaseContracts (nc_contract nc) = []
                      \<and> c_customErrors (nc_contract nc) = [])
     \<and> distinct (map nc_address cs)"
proof (induction nodes arbitrary: i fs cs)
  case Nil
  then show ?case by simp
next
  case (Cons n rest)
  show ?case
  proof (cases n)
    case (ContractDefinitionNode node)
    show ?thesis
    proof (cases "contractKindToContractType (cd_contractKind node)")
      case None
      with ContractDefinitionNode Cons.prems have
        "sourceSummary E fileMap file contractToAbi (Suc i) rest = Inr (fs, cs)" by simp
      from Cons.IH [OF this] show ?thesis by auto
    next
      case (Some contractType)
      with ContractDefinitionNode Cons.prems obtain funcs fs' cs' where
        rest: "sourceSummary E fileMap file contractToAbi (Suc i) rest = Inr (fs', cs')"
        and cs: "cs = \<lparr>nc_id = cd_id node, nc_address = (file, i),
                       nc_contract =
                         \<lparr>c_name = cd_name node, c_type = contractType,
                          c_location = astSrcToSourceLocation (cd_src node) fileMap,
                          c_localFunctions = funcs, c_linearizedBaseContracts = [],
                          c_customErrors = []\<rparr>,
                       nc_baseIds = cd_linearizedBaseContracts node\<rparr> # cs'"
        by (auto split: sum.splits)
      from Cons.IH [OF rest] have
        tl: "\<forall>nc \<in> set cs'. fst (nc_address nc) = file \<and> Suc i \<le> snd (nc_address nc)
                      \<and> c_linearizedBaseContracts (nc_contract nc) = []
                      \<and> c_customErrors (nc_contract nc) = []"
        and dtl: "distinct (map nc_address cs')" by blast+
      have "(file, i) \<notin> nc_address ` set cs'"
      proof
        assume "(file, i) \<in> nc_address ` set cs'"
        then obtain nc where "nc \<in> set cs'" "nc_address nc = (file, i)" by auto
        with tl have "Suc i \<le> snd (nc_address nc)" by blast
        with \<open>nc_address nc = (file, i)\<close> show False by simp
      qed
      moreover have "\<forall>nc \<in> set cs'. i \<le> snd (nc_address nc)"
        using tl by (metis Suc_leD)
      ultimately show ?thesis using tl dtl cs by simp
    qed
  next
    case (TopLevelFunctionNode node)
    with Cons.prems obtain fs' where
      "sourceSummary E fileMap file contractToAbi (Suc i) rest = Inr (fs', cs)"
      by (auto split: if_splits sum.splits)
    from Cons.IH [OF this] show ?thesis by auto
  next
    case (OtherNode nodeType)
    with Cons.prems have
      "sourceSummary E fileMap file contractToAbi (Suc i) rest = Inr (fs, cs)" by simp
    from Cons.IH [OF this] show ?thesis by auto
  qed
qed

lemma registered_processSource:
  assumes reg: "registered names s"
    and fresh: "sourceName \<notin> names"
    and run: "processSource E compilerOutput compilerInput (sourceName, source) s = Inr s'"
  shows "registered (insert sourceName names) s'"
proof -
  from run obtain content fs cs where
    sum: "sourceSummary E (AList.update (cs_id source) sourceName (fileIdToSourceFile s))
            sourceName (map_of (out_contracts compilerOutput) sourceName) 0 (cs_nodes source)
          = Inr (fs, cs)"
    and s': "s' = registerContracts cs
                   (s\<lparr>st_files := (st_files s)(sourceName \<mapsto>
                         \<lparr>sf_sourceName = sourceName, sf_content = content, sf_functions = fs\<rparr>),
                      fileIdToSourceFile :=
                        AList.update (cs_id source) sourceName (fileIdToSourceFile s)\<rparr>)"
    by (auto simp: processSource_eq split: option.splits sum.splits)
  from sourceSummary_addresses [OF sum] have
    addr: "\<forall>nc \<in> set cs. fst (nc_address nc) = sourceName"
    and empty: "\<forall>nc \<in> set cs. c_linearizedBaseContracts (nc_contract nc) = []
                               \<and> c_customErrors (nc_contract nc) = []"
    and dist: "distinct (map nc_address cs)"
    by auto
  have cmap: "contractIdToContract s'
                = fold (\<lambda>nc. AList.update (nc_id nc) (nc_address nc)) cs (contractIdToContract s)"
    and lin: "contractIdToLinearizedBaseContractIds s'
                = fold (\<lambda>nc. AList.update (nc_id nc) (nc_baseIds nc)) cs
                    (contractIdToLinearizedBaseContractIds s)"
    and store: "st_contracts s'
                = fold putContract cs (st_contracts s)"
    by (simp_all add: s' registerContracts_def)
  have old: "\<forall>a \<in> snd ` set (contractIdToContract s). fst a \<in> names \<and> st_contracts s a \<noteq> None"
    using reg unfolding registered_def by blast
  have notin: "\<forall>nc \<in> set cs. nc_address nc \<notin> snd ` set (contractIdToContract s)"
    using old fresh addr by metis
  have d0: "distinct (map snd (contractIdToContract s))"
    using reg by (simp add: registered_def)
  from fold_update_values [OF d0 dist notin] have
    d: "distinct (map snd (contractIdToContract s'))"
    and vals: "snd ` set (contractIdToContract s')
                 \<subseteq> snd ` set (contractIdToContract s) \<union> nc_address ` set cs"
    by (simp_all add: cmap)
  have keys: "map fst (contractIdToLinearizedBaseContractIds s') = map fst (contractIdToContract s')"
    unfolding cmap lin using reg by (intro fold_update_keys) (simp add: registered_def)
  have dom: "\<forall>a \<in> snd ` set (contractIdToContract s').
               fst a \<in> insert sourceName names \<and> st_contracts s' a \<noteq> None"
  proof
    fix a assume "a \<in> snd ` set (contractIdToContract s')"
    with vals have "a \<in> snd ` set (contractIdToContract s) \<or> a \<in> nc_address ` set cs" by auto
    then show "fst a \<in> insert sourceName names \<and> st_contracts s' a \<noteq> None"
    proof
      assume "a \<in> snd ` set (contractIdToContract s)"
      with old have "fst a \<in> names" "st_contracts s a \<noteq> None" by blast+
      then show ?thesis unfolding store using fold_store_dom [of "st_contracts s" a cs] by blast
    next
      assume a: "a \<in> nc_address ` set cs"
      with addr have "fst a = sourceName" by auto
      with a show ?thesis unfolding store using fold_store_dom [of "st_contracts s" a cs] by blast
    qed
  qed
  have emp: "\<forall>a c. st_contracts s' a = Some c \<longrightarrow>
               c_linearizedBaseContracts c = [] \<and> c_customErrors c = []"
  proof (intro allI impI)
    fix a c assume "st_contracts s' a = Some c"
    then have "st_contracts s a = Some c
               \<or> (\<exists>nc \<in> set cs. nc_address nc = a \<and> nc_contract nc = c)"
      unfolding store by (rule fold_store_Some)
    moreover have "\<forall>a c. st_contracts s a = Some c \<longrightarrow>
                     c_linearizedBaseContracts c = [] \<and> c_customErrors c = []"
      using reg unfolding registered_def by blast
    ultimately show "c_linearizedBaseContracts c = [] \<and> c_customErrors c = []"
      using empty by blast
  qed
  from d keys dom emp show ?thesis unfolding registered_def by blast
qed

lemma registered_processSources:
  "registered names s \<Longrightarrow> distinct (map fst sources) \<Longrightarrow> set (map fst sources) \<inter> names = {} \<Longrightarrow>
   processSources E compilerOutput compilerInput sources s = Inr s' \<Longrightarrow>
     registered (names \<union> set (map fst sources)) s'"
proof (induction sources arbitrary: names s)
  case Nil
  then show ?case by simp
next
  case (Cons entry rest)
  obtain sourceName source where entry: "entry = (sourceName, source)" by (cases entry)
  from Cons.prems(4) entry obtain s1 where
    s1: "processSource E compilerOutput compilerInput (sourceName, source) s = Inr s1"
    and rest: "processSources E compilerOutput compilerInput rest s1 = Inr s'"
    by (auto split: sum.splits)
  have fresh: "sourceName \<notin> names" using Cons.prems(3) entry by auto
  have reg1: "registered (insert sourceName names) s1"
    by (rule registered_processSource [OF Cons.prems(1) fresh s1])
  have "registered (insert sourceName names \<union> set (map fst rest)) s'"
    using Cons.prems(2,3) entry
    by (intro Cons.IH [OF reg1 _ _ rest]) auto
  then show ?case using entry by simp
qed

lemma registered_empty: "registered {} emptyState"
  by (simp add: registered_def emptyState_def)

lemma addNextLinearizedBaseContract_Some:
  "st_contracts s contract = Some c \<Longrightarrow>
     addNextLinearizedBaseContract contract baseContract s
       = s\<lparr>st_contracts := (st_contracts s)(contract \<mapsto>
              c\<lparr>c_linearizedBaseContracts := c_linearizedBaseContracts c @ [baseContract]\<rparr>)\<rparr>"
  by (simp add: addNextLinearizedBaseContract_def)

lemma addBaseContracts_eq:
  "st_contracts s contract = Some c \<Longrightarrow>
     addBaseContracts contract ids s
       = s\<lparr>st_contracts := (st_contracts s)(contract \<mapsto>
              c\<lparr>c_linearizedBaseContracts :=
                   c_linearizedBaseContracts c
                     @ resolveBaseContracts (contractIdToContract s) ids\<rparr>)\<rparr>"
proof (induction ids arbitrary: s c)
  case Nil
  then show ?case by (simp add: resolveBaseContracts_def fun_upd_idem)
next
  case (Cons baseId rest)
  show ?case
  proof (cases "map_of (contractIdToContract s) baseId")
    case None
    with Cons.IH [OF Cons.prems] show ?thesis
      by (simp add: resolveBaseContracts_def)
  next
    case (Some baseContract)
    let ?c = "c\<lparr>c_linearizedBaseContracts := c_linearizedBaseContracts c @ [baseContract]\<rparr>"
    let ?s = "s\<lparr>st_contracts := (st_contracts s)(contract \<mapsto> ?c)\<rparr>"
    have "st_contracts ?s contract = Some ?c" by simp
    from Cons.IH [OF this] Some Cons.prems show ?thesis
      by (intro State.equality)
         (simp_all add: resolveBaseContracts_def addNextLinearizedBaseContract_Some fun_eq_iff)
  qed
qed

lemma addBaseContracts_None:
  "st_contracts s contract = None \<Longrightarrow> addBaseContracts contract ids s = s"
  by (induction ids arbitrary: s)
     (simp_all add: addNextLinearizedBaseContract_def split: option.splits)

lemma addBaseContracts_resolveEntry:
  "map_of (contractIdToLinearizedBaseContractIds s) cid = Some (Some ids) \<Longrightarrow>
     addBaseContracts contract ids s
       = s\<lparr>st_contracts :=
             resolveEntry (contractIdToContract s) (contractIdToLinearizedBaseContractIds s)
               (cid, contract) (st_contracts s)\<rparr>"
proof (cases "st_contracts s contract")
  case None
  then show ?thesis by (simp add: addBaseContracts_None resolveEntry_def)
next
  case (Some c)
  assume "map_of (contractIdToLinearizedBaseContractIds s) cid = Some (Some ids)"
  with Some show ?thesis by (simp add: addBaseContracts_eq resolveEntry_def)
qed

lemma applyInheritanceLoop_eq:
  "applyInheritanceLoop entries s
     = (if list_all (hasBaseIds (contractIdToLinearizedBaseContractIds s)) entries
        then Inr (s\<lparr>st_contracts :=
                      fold (resolveEntry (contractIdToContract s)
                              (contractIdToLinearizedBaseContractIds s))
                        entries (st_contracts s)\<rparr>)
        else Inl LinearizedBaseContractsUndefined)"
proof (induction entries arbitrary: s)
  case Nil
  show ?case by simp
next
  case (Cons entry rest)
  obtain cid contract where entry: "entry = (cid, contract)" by (cases entry)
  show ?case
  proof (cases "map_of (contractIdToLinearizedBaseContractIds s) cid")
    case None
    with entry show ?thesis by (simp add: hasBaseIds_def)
  next
    case (Some v)
    show ?thesis
    proof (cases v)
      case None
      with Some entry show ?thesis by (simp add: hasBaseIds_def)
    next
      case (Some ids)
      with \<open>map_of (contractIdToLinearizedBaseContractIds s) cid = Some v\<close>
      have ids: "map_of (contractIdToLinearizedBaseContractIds s) cid = Some (Some ids)" by simp
      show ?thesis
        using entry ids
        by (simp add: Cons.IH addBaseContracts_resolveEntry [OF ids] hasBaseIds_def)
    qed
  qed
qed

lemma fold_resolveEntry_other:
  "a \<notin> snd ` set entries \<Longrightarrow> fold (resolveEntry cm li) entries m a = m a"
proof (induction entries arbitrary: m)
  case Nil
  show ?case by simp
next
  case (Cons entry rest)
  have "a \<noteq> snd entry" and "a \<notin> snd ` set rest" using Cons.prems by simp_all
  then show ?case
    by (simp add: Cons.IH) (simp add: resolveEntry_def split: option.splits)
qed

lemma fold_resolveEntry_at:
  "distinct (map snd entries) \<Longrightarrow> entry \<in> set entries \<Longrightarrow>
     fold (resolveEntry cm li) entries m (snd entry) = resolveEntry cm li entry m (snd entry)"
proof (induction entries arbitrary: m)
  case Nil
  then show ?case by simp
next
  case (Cons e rest)
  show ?case
  proof (cases "entry = e")
    case True
    have "snd e \<notin> snd ` set rest" using Cons.prems(1) by simp
    with True show ?thesis by (simp add: fold_resolveEntry_other)
  next
    case False
    with Cons.prems have mem: "entry \<in> set rest" and d: "distinct (map snd rest)" by simp_all
    have ne: "snd entry \<noteq> snd e" using Cons.prems(1) mem by (metis distinct.simps(2) image_eqI list.simps(9) list.set_map)
    have "fold (resolveEntry cm li) (e # rest) m (snd entry)
            = resolveEntry cm li entry (resolveEntry cm li e m) (snd entry)"
      using Cons.IH [OF d mem] by simp
    also have "\<dots> = resolveEntry cm li entry m (snd entry)"
      using ne by (simp add: resolveEntry_def split: option.splits)
    finally show ?thesis .
  qed
qed

lemma sample_functions:
  "newContractFunction sampleExt sampleFunction fm (Some c) (Some [])
     = Inr \<lparr>cf_name = ''f'', cf_type = FUNCTION,
            cf_location = astSrcToSourceLocation sampleSrc fm,
            cf_contract = Some c, cf_visibility = Some EXTERNAL,
            cf_isPayable = Some False, cf_selector = Some [102, 117, 105, 110],
            cf_paramTypes = None\<rparr>"
  "newContractFunction sampleExt freeFunction fm None None
     = Inr \<lparr>cf_name = ''helper'', cf_type = FREE_FUNCTION,
            cf_location = astSrcToSourceLocation sampleSrc fm,
            cf_contract = None, cf_visibility = Some INTERNAL,
            cf_isPayable = Some False, cf_selector = None,
            cf_paramTypes = None\<rparr>"
  by (simp_all add: newContractFunction_def selectorOfNode_def astFunctionDefinitionToSelector_def
        sampleExt_def sampleFunction_def freeFunction_def uintParam_def
        functionDefinitionKindToFunctionType_def
        matchingFunctionAbi_def paramTypesOfAbi_def sampleMethodID_def)

lemma cyclic_ancestors:
  "ancestorsOf (createSourcesModelFromAst sampleExt cyclicOutput sampleInput emptyState) (''a.sol'', 0)
     = Some [(''a.sol'', 0), (''a.sol'', 1), (''a.sol'', 0)]"
  by code_simp

lemma map_of_inj_on_values:
  "distinct (map snd al) \<Longrightarrow> map_of al i = Some a \<Longrightarrow> map_of al j = Some a \<Longrightarrow> i = j"
proof (induction al)
  case Nil
  then show ?case by simp
next
  case (Cons p ps)
  have notin: "\<And>k. map_of ps k = Some (snd p) \<Longrightarrow> False"
  proof -
    fix k assume "map_of ps k = Some (snd p)"
    then have "(k, snd p) \<in> set ps" by (rule map_of_SomeD)
    then have "snd p \<in> snd ` set ps" by (metis image_eqI snd_conv)
    with Cons.prems(1) show False by simp
  qed
  show ?case
  proof (cases "i = fst p"; cases "j = fst p")
    assume "i = fst p" "j = fst p"
    then show ?thesis by simp
  next
    assume "i = fst p" "j \<noteq> fst p"
    with Cons.prems(2,3) notin [of j] show ?thesis by (cases p) auto
  next
    assume "i \<noteq> fst p" "j = fst p"
    with Cons.prems(2,3) notin [of i] show ?thesis by (cases p) auto
  next
    assume "i \<noteq> fst p" "j \<noteq> fst p"
    with Cons.prems Cons.IH show ?thesis by (cases p) auto
  qed
qed

lemma set_resolveBaseContracts:
  "a \<in> set (resolveBaseContracts cm ids) \<longleftrightarrow> (\<exists>i \<in> set ids. map_of cm i = Some a)"
  by (induction ids) (auto simp: resolveBaseContracts_def split: option.splits)

lemma distinct_resolveBaseContracts:
  "distinct (map snd cm) \<Longrightarrow> distinct ids \<Longrightarrow> distinct (resolveBaseContracts cm ids)"
proof (induction ids)
  case Nil
  then show ?case by (simp add: resolveBaseContracts_def)
next
  case (Cons i ids)
  have tl: "distinct (resolveBaseContracts cm ids)" using Cons by simp
  show ?case
  proof (cases "map_of cm i")
    case None
    with tl show ?thesis by (simp add: resolveBaseContracts_def)
  next
    case (Some a)
    have "a \<notin> set (resolveBaseContracts cm ids)"
    proof
      assume "a \<in> set (resolveBaseContracts cm ids)"
      then obtain j where j: "j \<in> set ids" "map_of cm j = Some a"
        unfolding set_resolveBaseContracts by blast
      from map_of_inj_on_values [OF Cons.prems(1) Some j(2)] j(1) Cons.prems(2)
      show False by simp
    qed
    with tl Some show ?thesis by (simp add: resolveBaseContracts_def)
  qed
qed

lemma resolveBaseContracts_filter:
  "resolveBaseContracts cm ids
     = map (\<lambda>i. the (map_of cm i)) (filter (\<lambda>i. map_of cm i \<noteq> None) ids)"
  by (simp add: resolveBaseContracts_def List.map_filter_def comp_def)

lemma sourceSummary_nodes:
  "sourceSummary E fileMap file contractToAbi i nodes = Inr (fs, cs) \<Longrightarrow> nc \<in> set cs \<Longrightarrow>
     \<exists>j node. j < length nodes \<and> nodes ! j = ContractDefinitionNode node
              \<and> nc_address nc = (file, i + j) \<and> nc_id nc = cd_id node
              \<and> nc_baseIds nc = cd_linearizedBaseContracts node
              \<and> c_name (nc_contract nc) = cd_name node"
proof (induction nodes arbitrary: i fs cs)
  case Nil
  then show ?case by simp
next
  case (Cons n rest)
  have shift: "\<And>fs' cs'. sourceSummary E fileMap file contractToAbi (Suc i) rest = Inr (fs', cs')
                 \<Longrightarrow> nc \<in> set cs' \<Longrightarrow> ?case"
  proof -
    fix fs' cs'
    assume "sourceSummary E fileMap file contractToAbi (Suc i) rest = Inr (fs', cs')"
      and "nc \<in> set cs'"
    from Cons.IH [OF this] obtain j node where
      j: "j < length rest" "rest ! j = ContractDefinitionNode node"
         "nc_address nc = (file, Suc i + j)" "nc_id nc = cd_id node"
         "nc_baseIds nc = cd_linearizedBaseContracts node"
         "c_name (nc_contract nc) = cd_name node" by blast
    show ?case
      using j by (intro exI [of _ "Suc j"] exI [of _ node]) simp
  qed
  show ?case
  proof (cases n)
    case (ContractDefinitionNode node)
    show ?thesis
    proof (cases "contractKindToContractType (cd_contractKind node)")
      case None
      with ContractDefinitionNode Cons.prems(1) have
        "sourceSummary E fileMap file contractToAbi (Suc i) rest = Inr (fs, cs)" by simp
      from shift [OF this Cons.prems(2)] show ?thesis .
    next
      case (Some contractType)
      with ContractDefinitionNode Cons.prems(1) obtain funcs fs' cs' where
        rest: "sourceSummary E fileMap file contractToAbi (Suc i) rest = Inr (fs', cs')"
        and cs: "cs = \<lparr>nc_id = cd_id node, nc_address = (file, i),
                       nc_contract =
                         \<lparr>c_name = cd_name node, c_type = contractType,
                          c_location = astSrcToSourceLocation (cd_src node) fileMap,
                          c_localFunctions = funcs, c_linearizedBaseContracts = [],
                          c_customErrors = []\<rparr>,
                       nc_baseIds = cd_linearizedBaseContracts node\<rparr> # cs'"
        by (auto split: sum.splits)
      show ?thesis
      proof (cases "nc \<in> set cs'")
        case True
        from shift [OF rest True] show ?thesis .
      next
        case False
        with Cons.prems(2) cs have
          "nc = \<lparr>nc_id = cd_id node, nc_address = (file, i),
                 nc_contract =
                   \<lparr>c_name = cd_name node, c_type = contractType,
                    c_location = astSrcToSourceLocation (cd_src node) fileMap,
                    c_localFunctions = funcs, c_linearizedBaseContracts = [],
                    c_customErrors = []\<rparr>,
                 nc_baseIds = cd_linearizedBaseContracts node\<rparr>" by simp
        with ContractDefinitionNode show ?thesis
          by (intro exI [of _ 0] exI [of _ node]) simp
      qed
    qed
  next
    case (TopLevelFunctionNode node)
    with Cons.prems(1) obtain fs' where
      "sourceSummary E fileMap file contractToAbi (Suc i) rest = Inr (fs', cs)"
      by (auto split: if_splits sum.splits)
    from shift [OF this Cons.prems(2)] show ?thesis .
  next
    case (OtherNode nodeType)
    with Cons.prems(1) have
      "sourceSummary E fileMap file contractToAbi (Suc i) rest = Inr (fs, cs)" by simp
    from shift [OF this Cons.prems(2)] show ?thesis .
  qed
qed

lemma lockstep_updates:
  assumes "\<And>k a. map_of al k = Some a \<Longrightarrow> R k a (map_of bl k)"
    and "\<And>nc. nc \<in> set cs \<Longrightarrow> R (nc_id nc) (nc_address nc) (Some (nc_baseIds nc))"
    and "map_of (fold (\<lambda>nc. AList.update (nc_id nc) (nc_address nc)) cs al) k = Some a"
  shows "R k a (map_of (fold (\<lambda>nc. AList.update (nc_id nc) (nc_baseIds nc)) cs bl) k)"
  using assms
proof (induction cs arbitrary: al bl)
  case Nil
  then show ?case by simp
next
  case (Cons nc cs)
  let ?al = "AList.update (nc_id nc) (nc_address nc) al"
  let ?bl = "AList.update (nc_id nc) (nc_baseIds nc) bl"
  have hd: "R (nc_id nc) (nc_address nc) (Some (nc_baseIds nc))"
    by (rule Cons.prems(2)) simp
  have inv: "\<And>k a. map_of ?al k = Some a \<Longrightarrow> R k a (map_of ?bl k)"
  proof -
    fix k a assume m: "map_of ?al k = Some a"
    show "R k a (map_of ?bl k)"
    proof (cases "k = nc_id nc")
      case True
      with m have "a = nc_address nc" by (simp add: update_conv')
      with True hd show ?thesis by (simp add: update_conv')
    next
      case False
      with m have "map_of al k = Some a" by (simp add: update_conv')
      from Cons.prems(1) [OF this] False show ?thesis by (simp add: update_conv')
    qed
  qed
  have tl: "\<And>nc'. nc' \<in> set cs \<Longrightarrow> R (nc_id nc') (nc_address nc') (Some (nc_baseIds nc'))"
    by (rule Cons.prems(2)) simp
  have run: "map_of (fold (\<lambda>nc. AList.update (nc_id nc) (nc_address nc)) cs ?al) k = Some a"
    using Cons.prems(3) by simp
  from Cons.IH [of ?al ?bl, OF inv tl run] show ?case by simp
qed

lemma nodeAt_member:
  assumes "distinct (map fst sources)" and "(sourceName, source) \<in> set sources"
    and "j < length (cs_nodes source)" and "cs_nodes source ! j = ContractDefinitionNode node"
  shows "nodeAt sources (sourceName, j) = Some node"
proof -
  from assms(1,2) have "map_of sources sourceName = Some source" by (rule map_of_is_SomeI)
  with assms(3,4) show ?thesis by (simp add: nodeAt_def)
qed

lemma tied_processSource:
  assumes t: "tied sources s"
    and names: "distinct (map fst sources)"
    and mem: "(sourceName, source) \<in> set sources"
    and run: "processSource E compilerOutput compilerInput (sourceName, source) s = Inr s'"
  shows "tied sources s'"
proof -
  from run obtain content fs cs where
    sum: "sourceSummary E (AList.update (cs_id source) sourceName (fileIdToSourceFile s))
            sourceName (map_of (out_contracts compilerOutput) sourceName) 0 (cs_nodes source)
          = Inr (fs, cs)"
    and s': "s' = registerContracts cs
                   (s\<lparr>st_files := (st_files s)(sourceName \<mapsto>
                         \<lparr>sf_sourceName = sourceName, sf_content = content, sf_functions = fs\<rparr>),
                      fileIdToSourceFile :=
                        AList.update (cs_id source) sourceName (fileIdToSourceFile s)\<rparr>)"
    by (auto simp: processSource_eq split: option.splits sum.splits)
  have cmap: "contractIdToContract s'
                = fold (\<lambda>nc. AList.update (nc_id nc) (nc_address nc)) cs (contractIdToContract s)"
    and lin: "contractIdToLinearizedBaseContractIds s'
                = fold (\<lambda>nc. AList.update (nc_id nc) (nc_baseIds nc)) cs
                    (contractIdToLinearizedBaseContractIds s)"
    and store: "st_contracts s' = fold putContract cs (st_contracts s)"
    by (simp_all add: s' registerContracts_def)
  have new: "\<And>nc. nc \<in> set cs \<Longrightarrow>
               \<exists>node. nodeAt sources (nc_address nc) = Some node \<and> nc_id nc = cd_id node
                      \<and> nc_baseIds nc = cd_linearizedBaseContracts node
                      \<and> c_name (nc_contract nc) = cd_name node"
  proof -
    fix nc assume "nc \<in> set cs"
    from sourceSummary_nodes [OF sum this] obtain j node where
      j: "j < length (cs_nodes source)" "cs_nodes source ! j = ContractDefinitionNode node"
         "nc_address nc = (sourceName, j)" "nc_id nc = cd_id node"
         "nc_baseIds nc = cd_linearizedBaseContracts node"
         "c_name (nc_contract nc) = cd_name node" by auto
    from nodeAt_member [OF names mem j(1,2)] j(3-6)
    show "\<exists>node. nodeAt sources (nc_address nc) = Some node \<and> nc_id nc = cd_id node
                      \<and> nc_baseIds nc = cd_linearizedBaseContracts node
                      \<and> c_name (nc_contract nc) = cd_name node" by simp
  qed
  have old: "\<And>k a. map_of (contractIdToContract s) k = Some a \<Longrightarrow>
               recorded sources k a (map_of (contractIdToLinearizedBaseContractIds s) k)"
    using t unfolding tied_def by blast
  have newrec: "\<And>nc. nc \<in> set cs \<Longrightarrow>
                  recorded sources (nc_id nc) (nc_address nc) (Some (nc_baseIds nc))"
  proof -
    fix nc assume "nc \<in> set cs"
    from new [OF this] show "recorded sources (nc_id nc) (nc_address nc) (Some (nc_baseIds nc))"
      by (auto simp: recorded_def)
  qed
  have maps: "\<forall>cid contract. map_of (contractIdToContract s') cid = Some contract \<longrightarrow>
        recorded sources cid contract (map_of (contractIdToLinearizedBaseContractIds s') cid)"
    unfolding cmap lin
    by (intro allI impI, rule lockstep_updates [where R = "recorded sources", OF old newrec])
  have objs: "\<forall>contract c. st_contracts s' contract = Some c \<longrightarrow>
          (case nodeAt sources contract of None \<Rightarrow> False | Some node \<Rightarrow> c_name c = cd_name node)"
  proof (intro allI impI)
    fix contract c assume "st_contracts s' contract = Some c"
    then have "st_contracts s contract = Some c
               \<or> (\<exists>nc \<in> set cs. nc_address nc = contract \<and> nc_contract nc = c)"
      unfolding store by (rule fold_store_Some)
    then show "case nodeAt sources contract of None \<Rightarrow> False
               | Some node \<Rightarrow> c_name c = cd_name node"
    proof
      assume "st_contracts s contract = Some c"
      with t show ?thesis unfolding tied_def by blast
    next
      assume "\<exists>nc \<in> set cs. nc_address nc = contract \<and> nc_contract nc = c"
      then obtain nc where nc: "nc \<in> set cs" "nc_address nc = contract" "nc_contract nc = c"
        by blast
      from new [OF nc(1)] nc(2,3) show ?thesis by auto
    qed
  qed
  from maps objs show ?thesis unfolding tied_def by blast
qed

lemma tied_processSources:
  "tied sources s \<Longrightarrow> distinct (map fst sources) \<Longrightarrow> set rest \<subseteq> set sources \<Longrightarrow>
   processSources E compilerOutput compilerInput rest s = Inr s' \<Longrightarrow> tied sources s'"
proof (induction rest arbitrary: s)
  case Nil
  then show ?case by simp
next
  case (Cons entry rest)
  obtain sourceName source where entry: "entry = (sourceName, source)" by (cases entry)
  from Cons.prems(4) entry obtain s1 where
    s1: "processSource E compilerOutput compilerInput (sourceName, source) s = Inr s1"
    and rest: "processSources E compilerOutput compilerInput rest s1 = Inr s'"
    by (auto split: sum.splits)
  have mem: "(sourceName, source) \<in> set sources" using Cons.prems(3) entry by simp
  have sub: "set rest \<subseteq> set sources" using Cons.prems(3) by simp
  have "tied sources s1"
    by (rule tied_processSource [OF Cons.prems(1,2) mem s1])
  from Cons.IH [OF this Cons.prems(2) sub rest] show ?case .
qed

lemma tied_empty: "tied sources emptyState"
  by (simp add: tied_def emptyState_def)

text \<open>
  C3 (as amended). The ancestors of a contract are resolved after every source has been
  processed: until then no contract in the store has an ancestor, and the second pass
  leaves the contract map as it is. An entry of the contract map is the object created for
  a contract definition of the compiler output with the id of the entry, and that contract
  gets, as its ancestors, the contracts that the \<^verbatim>\<open>linearizedBaseContracts\<close> of that
  definition resolve to in the complete contract map, in the order in which the compiler
  gives the ids, the ids that do not resolve being skipped. The list repeats no contract
  when the ids repeat no id; the builder checks neither repetitions nor cycles.
\<close>

theorem ancestors_resolved_in_order:
  assumes run: "createSourcesModelFromAst E compilerOutput compilerInput emptyState = Inr s'"
    and names: "distinct (map fst (out_sources compilerOutput))"
    and entry: "map_of (contractIdToContract s') cid = Some contract"
  shows "\<exists>s c node ids.
           processSources E compilerOutput compilerInput (out_sources compilerOutput) emptyState
             = Inr s
           \<and> (\<forall>a d. st_contracts s a = Some d \<longrightarrow> c_linearizedBaseContracts d = [])
           \<and> contractIdToContract s' = contractIdToContract s
           \<and> nodeAt (out_sources compilerOutput) contract = Some node
           \<and> cd_id node = cid
           \<and> cd_linearizedBaseContracts node = Some ids
           \<and> map_of (contractIdToLinearizedBaseContractIds s) cid = Some (Some ids)
           \<and> st_contracts s contract = Some c
           \<and> c_name c = cd_name node
           \<and> st_contracts s' contract
               = Some (c\<lparr>c_linearizedBaseContracts :=
                          map (\<lambda>i. the (map_of (contractIdToContract s') i))
                            (filter (\<lambda>i. map_of (contractIdToContract s') i \<noteq> None) ids)\<rparr>)
           \<and> (distinct ids \<longrightarrow>
                 distinct (map (\<lambda>i. the (map_of (contractIdToContract s') i))
                             (filter (\<lambda>i. map_of (contractIdToContract s') i \<noteq> None) ids)))"
proof -
  from run obtain s where
    ps: "processSources E compilerOutput compilerInput (out_sources compilerOutput) emptyState
           = Inr s"
    and ap: "applyInheritanceLoop (contractIdToContract s) s = Inr s'"
    by (auto simp: createSourcesModelFromAst_def applyContractsInheritance_def split: sum.splits)
  let ?cm = "contractIdToContract s" and ?li = "contractIdToLinearizedBaseContractIds s"
  have reg: "registered ({} \<union> set (map fst (out_sources compilerOutput))) s"
    by (rule registered_processSources [OF registered_empty names _ ps]) simp
  have td: "tied (out_sources compilerOutput) s"
    by (rule tied_processSources [OF tied_empty names _ ps]) simp
  have dv: "distinct (map snd ?cm)"
    and dom: "\<forall>a \<in> snd ` set ?cm. st_contracts s a \<noteq> None"
    and emp: "\<forall>a d. st_contracts s a = Some d \<longrightarrow>
                c_linearizedBaseContracts d = [] \<and> c_customErrors d = []"
    using reg unfolding registered_def by blast+
  from ap have all: "list_all (hasBaseIds ?li) ?cm"
    and s': "s' = s\<lparr>st_contracts := fold (resolveEntry ?cm ?li) ?cm (st_contracts s)\<rparr>"
    by (simp_all add: applyInheritanceLoop_eq split: if_splits)
  have cm': "contractIdToContract s' = ?cm" by (simp add: s')
  from entry have look: "map_of ?cm cid = Some contract" by (simp add: cm')
  then have mem: "(cid, contract) \<in> set ?cm" by (rule map_of_SomeD)
  then have "contract \<in> snd ` set ?cm" by (metis image_eqI snd_conv)
  with dom obtain c where c: "st_contracts s contract = Some c" by blast
  from td look have "recorded (out_sources compilerOutput) cid contract (map_of ?li cid)"
    unfolding tied_def by blast
  then obtain node where node: "nodeAt (out_sources compilerOutput) contract = Some node"
    and nid: "cd_id node = cid"
    and li: "map_of ?li cid = Some (cd_linearizedBaseContracts node)"
    by (auto simp: recorded_def split: option.splits)
  from td have "\<forall>contract c. st_contracts s contract = Some c \<longrightarrow>
          (case nodeAt (out_sources compilerOutput) contract of None \<Rightarrow> False
           | Some node \<Rightarrow> c_name c = cd_name node)"
    unfolding tied_def by (rule conjunct2)
  then have "case nodeAt (out_sources compilerOutput) contract of None \<Rightarrow> False
           | Some node \<Rightarrow> c_name c = cd_name node"
    using c by (elim allE impE)
  with node have nm: "c_name c = cd_name node" by simp
  from all mem have "hasBaseIds ?li (cid, contract)" by (simp add: list_all_iff)
  with li obtain ids where ids: "cd_linearizedBaseContracts node = Some ids"
    by (auto simp: hasBaseIds_def split: option.splits)
  with li have lids: "map_of ?li cid = Some (Some ids)" by simp
  have "st_contracts s' contract = fold (resolveEntry ?cm ?li) ?cm (st_contracts s) contract"
    by (simp add: s')
  also have "\<dots> = resolveEntry ?cm ?li (cid, contract) (st_contracts s) contract"
    using fold_resolveEntry_at [OF dv mem] by simp
  also have "\<dots> = Some (c\<lparr>c_linearizedBaseContracts := resolveBaseContracts ?cm ids\<rparr>)"
  proof -
    from emp c have "c_linearizedBaseContracts c = []" by blast
    with c lids show ?thesis by (simp add: resolveEntry_def)
  qed
  finally have res: "st_contracts s' contract
      = Some (c\<lparr>c_linearizedBaseContracts := resolveBaseContracts ?cm ids\<rparr>)" .
  have dist: "distinct ids \<longrightarrow> distinct (resolveBaseContracts ?cm ids)"
    using distinct_resolveBaseContracts [OF dv] by blast
  have e: "\<forall>a d. st_contracts s a = Some d \<longrightarrow> c_linearizedBaseContracts d = []"
    using emp by blast
  show ?thesis
    unfolding cm' resolveBaseContracts_filter [symmetric]
    using ps e node nid ids lids c nm res dist by blast
qed

lemma succeeds_Inr: "succeeds r \<Longrightarrow> \<exists>x. r = Inr x"
  by (cases r) (simp_all add: succeeds_def)

lemma sample_build_succeeds:
  "succeeds (createSourcesModelFromAst sampleExt sampleOutput sampleInput emptyState)"
  by code_simp

lemma sample_build_contractMap:
  "contractMapOf (createSourcesModelFromAst sampleExt sampleOutput sampleInput emptyState)
     = [(1, (''a.sol'', 0)), (2, (''a.sol'', 2))]"
  by code_simp

lemma sample_build_ancestors:
  "ancestorsOf (createSourcesModelFromAst sampleExt sampleOutput sampleInput emptyState)
     (''a.sol'', 0) = Some [(''a.sol'', 0), (''a.sol'', 2)]"
  by code_simp

lemma sample_node:
  "nodeAt (out_sources sampleOutput) (''a.sol'', 0) = Some contractA"
  by (simp add: nodeAt_def sampleOutput_def sourceA_def)

theorem ancestors_resolved_witness:
  "\<exists>s' s c.
     createSourcesModelFromAst sampleExt sampleOutput sampleInput emptyState = Inr s'
     \<and> distinct (map fst (out_sources sampleOutput))
     \<and> map_of (contractIdToContract s') 1 = Some (''a.sol'', 0)
     \<and> processSources sampleExt sampleOutput sampleInput (out_sources sampleOutput) emptyState
         = Inr s
     \<and> nodeAt (out_sources sampleOutput) (''a.sol'', 0) = Some contractA
     \<and> cd_linearizedBaseContracts contractA = Some [1, 7, 2]
     \<and> st_contracts s (''a.sol'', 0) = Some c
     \<and> st_contracts s' (''a.sol'', 0)
         = Some (c\<lparr>c_linearizedBaseContracts :=
                    map (\<lambda>i. the (map_of (contractIdToContract s') i))
                      (filter (\<lambda>i. map_of (contractIdToContract s') i \<noteq> None) [1, 7, 2])\<rparr>)"
proof -
  from succeeds_Inr [OF sample_build_succeeds] obtain s' where
    run: "createSourcesModelFromAst sampleExt sampleOutput sampleInput emptyState = Inr s'"
    by blast
  have names: "distinct (map fst (out_sources sampleOutput))"
    by (simp add: sampleOutput_def)
  have "contractIdToContract s' = [(1, (''a.sol'', 0)), (2, (''a.sol'', 2))]"
    using sample_build_contractMap by (simp add: run contractMapOf_def)
  then have entry: "map_of (contractIdToContract s') 1 = Some (''a.sol'', 0)" by simp
  have ids: "cd_linearizedBaseContracts contractA = Some [1, 7, 2]"
    by (simp add: contractA_def)
  from ancestors_resolved_in_order [OF run names entry] obtain s c node ids where
    r: "processSources sampleExt sampleOutput sampleInput (out_sources sampleOutput) emptyState
         = Inr s"
       "nodeAt (out_sources sampleOutput) (''a.sol'', 0) = Some node"
       "cd_linearizedBaseContracts node = Some ids"
       "st_contracts s (''a.sol'', 0) = Some c"
       "st_contracts s' (''a.sol'', 0)
         = Some (c\<lparr>c_linearizedBaseContracts :=
                    map (\<lambda>i. the (map_of (contractIdToContract s') i))
                      (filter (\<lambda>i. map_of (contractIdToContract s') i \<noteq> None) ids)\<rparr>)"
    by blast
  from r(2) sample_node have "node = contractA" by simp
  with r(3) ids have "ids = [1, 7, 2]" by simp
  with r run names entry sample_node ids show ?thesis by blast
qed

text \<open>
  With ancestor ids in which \<^verbatim>\<open>A\<close> and \<^verbatim>\<open>B\<close> name each other, \<^verbatim>\<open>A\<close> occurs twice among its
  own ancestors and each of the two contracts is an ancestor of the other.
\<close>

theorem ancestors_cyclic_counterexample:
  "ancestorsOf (createSourcesModelFromAst sampleExt cyclicOutput sampleInput emptyState)
     (''a.sol'', 0) = Some [(''a.sol'', 0), (''a.sol'', 1), (''a.sol'', 0)]
   \<and> ancestorsOf (createSourcesModelFromAst sampleExt cyclicOutput sampleInput emptyState)
       (''a.sol'', 1) = Some [(''a.sol'', 1), (''a.sol'', 0)]"
  by code_simp

lemma process_function_state:
  assumes "processFunctionDefinitionAstNode E node contract file functionAbis s = Inr s'"
    and "fd_implemented node \<noteq> Some False"
  shows "\<exists>func. newContractFunction E node (fileIdToSourceFile s) contract functionAbis = Inr func
           \<and> s' = addFunction file func
                    (case contract of None \<Rightarrow> s | Some c \<Rightarrow> addLocalFunction c func s)"
  using assms
  by (auto simp: processFunctionDefinitionAstNode_def split: sum.splits)

lemma addFunction_store [simp]: "st_contracts (addFunction file func s) = st_contracts s"
  by (simp add: addFunction_def split: option.splits)

lemma addLocalFunction_files [simp]: "st_files (addLocalFunction c func s) = st_files s"
  by (simp add: addLocalFunction_def split: option.splits)

text \<open>
  C9 (as amended). Every function definition that is processed and not skipped is
  appended to the function list of its file, whether it is at the top level of the file
  (then it has no owner and no contract changes) or nested in a contract (then the
  contract is its owner and the function is appended to the local functions of the
  contract as well).
\<close>

theorem function_recorded_on_file:
  assumes "processFunctionDefinitionAstNode E node contract file functionAbis s = Inr s'"
    and "fd_implemented node \<noteq> Some False"
    and "st_files s file = Some f"
  shows "\<exists>func. st_files s' file = Some (f\<lparr>sf_functions := sf_functions f @ [func]\<rparr>)
           \<and> cf_contract func = contract
           \<and> (case contract of
                 None \<Rightarrow> st_contracts s' = st_contracts s
               | Some c \<Rightarrow>
                   (case st_contracts s c of
                      None \<Rightarrow> st_contracts s' = st_contracts s
                    | Some d \<Rightarrow>
                        st_contracts s'
                          = (st_contracts s)(c \<mapsto>
                               d\<lparr>c_localFunctions := c_localFunctions d @ [func]\<rparr>)))"
proof -
  from process_function_state [OF assms(1,2)] obtain func where
    new: "newContractFunction E node (fileIdToSourceFile s) contract functionAbis = Inr func"
    and s': "s' = addFunction file func
                   (case contract of None \<Rightarrow> s | Some c \<Rightarrow> addLocalFunction c func s)"
    by blast
  have owner: "cf_contract func = contract"
    by (rule newContractFunction_fields(3) [OF new])
  have files: "st_files s' file = Some (f\<lparr>sf_functions := sf_functions f @ [func]\<rparr>)"
    using assms(3) by (simp add: s' addFunction_def split: option.splits)
  have store: "(case contract of
                 None \<Rightarrow> st_contracts s' = st_contracts s
               | Some c \<Rightarrow>
                   (case st_contracts s c of
                      None \<Rightarrow> st_contracts s' = st_contracts s
                    | Some d \<Rightarrow>
                        st_contracts s'
                          = (st_contracts s)(c \<mapsto>
                               d\<lparr>c_localFunctions := c_localFunctions d @ [func]\<rparr>)))"
    by (simp add: s' addLocalFunction_def split: option.splits)
  from files owner store show ?thesis by blast
qed

theorem function_recorded_witness:
  "\<exists>s' func.
     processFunctionDefinitionAstNode sampleExt sampleFunction (Some (''a.sol'', 0)) ''a.sol''
       (Some []) contractState = Inr s'
     \<and> st_files s' ''a.sol'' = Some (sampleFile\<lparr>sf_functions := sf_functions sampleFile @ [func]\<rparr>)
     \<and> cf_contract func = Some (''a.sol'', 0)
     \<and> st_contracts s'
         = (st_contracts contractState)((''a.sol'', 0) \<mapsto>
              sampleContract\<lparr>c_localFunctions := c_localFunctions sampleContract @ [func]\<rparr>)"
proof -
  have "\<exists>s'. processFunctionDefinitionAstNode sampleExt sampleFunction (Some (''a.sol'', 0))
               ''a.sol'' (Some []) contractState = Inr s'"
    by (simp add: processFunctionDefinitionAstNode_def sample_functions)
  then obtain s' where
    run: "processFunctionDefinitionAstNode sampleExt sampleFunction (Some (''a.sol'', 0))
            ''a.sol'' (Some []) contractState = Inr s'" by blast
  have impl: "fd_implemented sampleFunction \<noteq> Some False" by (simp add: sampleFunction_def)
  have fileq: "st_files contractState ''a.sol'' = Some sampleFile"
    by (simp add: contractState_def sampleState_def emptyState_def)
  have c: "st_contracts contractState (''a.sol'', 0) = Some sampleContract"
    by (simp add: contractState_def)
  from function_recorded_on_file [OF run impl fileq] run c show ?thesis
    by auto
qed

text \<open>
  After the sample build, the function list of \<^verbatim>\<open>a.sol\<close> holds the function \<^verbatim>\<open>f\<close> nested in
  the contract \<^verbatim>\<open>A\<close> as well as the free function \<^verbatim>\<open>helper\<close>.
\<close>

theorem nested_function_on_file_counterexample:
  "fileFunctionsOf (createSourcesModelFromAst sampleExt sampleOutput sampleInput emptyState)
     ''a.sol''
   = Some [\<lparr>cf_name = ''f'', cf_type = FUNCTION,
             cf_location = Some \<lparr>sl_file = ''a.sol'', sl_offset = 0, sl_length = 10\<rparr>,
             cf_contract = Some (''a.sol'', 0), cf_visibility = Some EXTERNAL,
             cf_isPayable = Some False, cf_selector = Some [102, 117, 105, 110],
             cf_paramTypes = None\<rparr>,
            \<lparr>cf_name = ''helper'', cf_type = FREE_FUNCTION,
             cf_location = Some \<lparr>sl_file = ''a.sol'', sl_offset = 0, sl_length = 10\<rparr>,
             cf_contract = None, cf_visibility = Some INTERNAL,
             cf_isPayable = Some False, cf_selector = None, cf_paramTypes = None\<rparr>]"
  by code_simp

subsection \<open>The bytecode pass as a whole\<close>

lemma decodeContract_output:
  "decodeContract E solcVersion compilerOutput contract s
     = (case contractOutputOf compilerOutput s contract of
          Inl e \<Rightarrow> Inl e
        | Inr contractOutput \<Rightarrow>
            Inr (customErrorsLoop E contract (co_abi contractOutput) s,
                 pushedBytecodes E solcVersion (fileIdToSourceFile s) contract contractOutput))"
  by (simp add: decodeContract_def contractOutputOf_def pushedBytecodes_def Let_def
        split: option.splits)

lemma contractOutputOf_sameButErrors:
  assumes rel: "sameButErrors s t"
  shows "contractOutputOf compilerOutput t contract = contractOutputOf compilerOutput s contract"
proof (cases "st_contracts s contract")
  case None
  with sameButErrors_lookup(1) [OF rel, of contract] show ?thesis
    by (simp add: contractOutputOf_def)
next
  case (Some c)
  with sameButErrors_lookup(1) [OF rel, of contract] obtain d where
    d: "st_contracts t contract = Some d" by auto
  from sameButErrors_lookup(2) [OF rel Some d] have
    nm: "c_name d = c_name c" and loc: "c_location d = c_location c" by simp_all
  have files: "st_files t = st_files s"
    using rel by (simp add: sameButErrors_def)
  show ?thesis
    using Some d nm loc files by (simp add: contractOutputOf_def split: option.splits)
qed

lemma sameButErrors_after:
  "sameButErrors s t \<Longrightarrow> sameButErrors s (customErrorsLoop E contract contractAbi t)"
  by (simp add: sameButErrors_def customErrorsLoop_name_location comp_def)

lemma decodeBytecodesLoop_collect:
  "sameButErrors s t \<Longrightarrow>
     map_sum id snd (decodeBytecodesLoop E solcVersion compilerOutput contracts t bytecodes)
       = map_sum id (\<lambda>pushed. bytecodes @ concat pushed)
           (collect
              (map (\<lambda>contract.
                      map_sum id (pushedBytecodes E solcVersion (fileIdToSourceFile s) contract)
                        (contractOutputOf compilerOutput s contract))
                 contracts))"
proof (induction contracts arbitrary: t bytecodes)
  case Nil
  show ?case by simp
next
  case (Cons contract rest)
  let ?f = "\<lambda>contract.
              map_sum id (pushedBytecodes E solcVersion (fileIdToSourceFile s) contract)
                (contractOutputOf compilerOutput s contract)"
  have out: "contractOutputOf compilerOutput t contract = contractOutputOf compilerOutput s contract"
    by (rule contractOutputOf_sameButErrors [OF Cons.prems])
  have fm: "fileIdToSourceFile t = fileIdToSourceFile s"
    using Cons.prems by (simp add: sameButErrors_def)
  show ?case
  proof (cases "contractOutputOf compilerOutput s contract")
    case (Inl e)
    then show ?thesis by (simp add: decodeContract_output out)
  next
    case (Inr contractOutput)
    let ?t = "customErrorsLoop E contract (co_abi contractOutput) t"
    let ?p = "pushedBytecodes E solcVersion (fileIdToSourceFile s) contract contractOutput"
    have rel: "sameButErrors s ?t" by (rule sameButErrors_after [OF Cons.prems])
    have step: "decodeBytecodesLoop E solcVersion compilerOutput (contract # rest) t bytecodes
                  = decodeBytecodesLoop E solcVersion compilerOutput rest ?t (bytecodes @ ?p)"
      by (simp add: decodeContract_output out Inr fm)
    have "map_sum id snd (decodeBytecodesLoop E solcVersion compilerOutput rest ?t (bytecodes @ ?p))
            = map_sum id (\<lambda>pushed. (bytecodes @ ?p) @ concat pushed) (collect (map ?f rest))"
      by (rule Cons.IH [OF rel])
    also have "\<dots> = map_sum id (\<lambda>pushed. bytecodes @ concat pushed)
                        (collect (map ?f (contract # rest)))"
      by (cases "collect (map ?f rest)") (simp_all add: Inr)
    finally show ?thesis by (simp only: step)
  qed
qed

lemma decodeBytecodes_collect:
  "map_sum id snd (decodeBytecodes E solcVersion compilerOutput s)
     = map_sum id concat
         (collect
            (map (\<lambda>contract.
                    map_sum id (pushedBytecodes E solcVersion (fileIdToSourceFile s) contract)
                      (contractOutputOf compilerOutput s contract))
               (map snd (contractIdToContract s))))"
  unfolding decodeBytecodes_def
  by (simp add: decodeBytecodesLoop_collect [OF sameButErrors_refl])

text \<open>
  C4. The list that \<^verbatim>\<open>decodeBytecodes\<close> returns is made of what the contracts of the
  contract map contribute, in the order of the map: a contract whose bytecode object is
  the empty string contributes nothing, and any other contract contributes exactly two
  bytecodes, the deployment one, decoded from \<^verbatim>\<open>bytecode\<close>, followed by the runtime one,
  decoded from \<^verbatim>\<open>deployedBytecode\<close>. The pass raises only when the output of a contract
  cannot be read, and then what the first such contract raises: an empty bytecode object
  is no error.
\<close>

theorem two_bytecodes_unless_empty:
  "map_sum id snd (decodeBytecodes E solcVersion compilerOutput s)
     = map_sum id concat
         (collect
            (map (\<lambda>contract.
                    map_sum id
                      (\<lambda>contractOutput.
                         if cb_object (co_bytecode contractOutput) = '''' then []
                         else [decodeEvmBytecode E contract solcVersion True
                                 (co_bytecode contractOutput) (fileIdToSourceFile s),
                               decodeEvmBytecode E contract solcVersion False
                                 (co_deployedBytecode contractOutput) (fileIdToSourceFile s)])
                      (contractOutputOf compilerOutput s contract))
               (map snd (contractIdToContract s))))"
proof -
  have "pushedBytecodes E solcVersion (fileIdToSourceFile s)
          = (\<lambda>contract contractOutput.
               if cb_object (co_bytecode contractOutput) = '''' then []
               else [decodeEvmBytecode E contract solcVersion True
                       (co_bytecode contractOutput) (fileIdToSourceFile s),
                     decodeEvmBytecode E contract solcVersion False
                       (co_deployedBytecode contractOutput) (fileIdToSourceFile s)])"
    by (simp add: fun_eq_iff pushedBytecodes_def)
  then show ?thesis
    using decodeBytecodes_collect [of E solcVersion compilerOutput s] by simp
qed

lemma sample_pushed:
  "pushedAfterBuild sampleExt ''0.8.0'' sampleInput sampleOutput
     = Some [[((''a.sol'', 0), True), ((''a.sol'', 0), False)], []]"
  by code_simp

theorem two_bytecodes_witness:
  "\<exists>s pushed.
     createSourcesModelFromAst sampleExt sampleOutput sampleInput emptyState = Inr s
     \<and> map snd (contractIdToContract s) = [(''a.sol'', 0), (''a.sol'', 2)]
     \<and> map (map (\<lambda>b. (bc_contract b, bc_isDeployment b))) pushed
         = [[((''a.sol'', 0), True), ((''a.sol'', 0), False)], []]
     \<and> map_sum id snd (decodeBytecodes sampleExt ''0.8.0'' sampleOutput s) = Inr (concat pushed)"
proof -
  from succeeds_Inr [OF sample_build_succeeds] obtain s where
    build: "createSourcesModelFromAst sampleExt sampleOutput sampleInput emptyState = Inr s"
    by blast
  have cm: "contractIdToContract s = [(1, (''a.sol'', 0)), (2, (''a.sol'', 2))]"
    using sample_build_contractMap by (simp add: build contractMapOf_def)
  let ?f = "\<lambda>contract.
              map_sum id (pushedBytecodes sampleExt ''0.8.0'' (fileIdToSourceFile s) contract)
                (contractOutputOf sampleOutput s contract)"
  from sample_pushed build obtain pushed where
    c: "collect (map ?f (map snd (contractIdToContract s))) = Inr pushed"
    and p: "map (map (\<lambda>b. (bc_contract b, bc_isDeployment b))) pushed
         = [[((''a.sol'', 0), True), ((''a.sol'', 0), False)], []]"
    by (auto simp: pushedAfterBuild_def split: sum.splits)
  have "map_sum id snd (decodeBytecodes sampleExt ''0.8.0'' sampleOutput s)
          = map_sum id concat (collect (map ?f (map snd (contractIdToContract s))))"
    using two_bytecodes_unless_empty [of sampleExt "''0.8.0''" sampleOutput s]
    by (simp add: pushedBytecodes_def [abs_def])
  with c have "map_sum id snd (decodeBytecodes sampleExt ''0.8.0'' sampleOutput s)
                 = Inr (concat pushed)" by simp
  with build cm p show ?thesis by (intro exI [of _ s] exI [of _ pushed]) simp
qed

lemma collect_owner:
  assumes "collect (map f xs) = Inr ys"
    and "\<And>x y b. f x = Inr y \<Longrightarrow> b \<in> set y \<Longrightarrow> g b = x"
    and "b \<in> set (concat ys)"
  shows "g b \<in> set xs"
  using assms(1,3)
proof (induction xs arbitrary: ys)
  case Nil
  then show ?case by simp
next
  case (Cons x xs)
  from Cons.prems(1) obtain y ys' where
    y: "f x = Inr y" and ys': "collect (map f xs) = Inr ys'" and ys: "ys = y # ys'"
    by (auto split: sum.splits)
  from Cons.prems(2) ys have "b \<in> set y \<or> b \<in> set (concat ys')" by simp
  then show ?case
  proof
    assume "b \<in> set y"
    from assms(2) [OF y this] show ?thesis by simp
  next
    assume "b \<in> set (concat ys')"
    from Cons.IH [OF ys' this] show ?thesis by simp
  qed
qed

lemma collect_filter:
  assumes "collect (map f xs) = Inr ys"
    and own: "\<And>x y b. f x = Inr y \<Longrightarrow> b \<in> set y \<Longrightarrow> g b = x"
    and "distinct xs"
    and "a \<in> set xs"
  shows "\<exists>y. f a = Inr y \<and> filter (\<lambda>b. g b = a) (concat ys) = y"
  using assms(1,3,4)
proof (induction xs arbitrary: ys)
  case Nil
  then show ?case by simp
next
  case (Cons x xs)
  from Cons.prems(1) obtain y ys' where
    y: "f x = Inr y" and ys': "collect (map f xs) = Inr ys'" and ys: "ys = y # ys'"
    by (auto split: sum.splits)
  have fresh: "x \<notin> set xs" and dist: "distinct xs" using Cons.prems(2) by simp_all
  show ?case
  proof (cases "a = x")
    case True
    have "\<And>b. b \<in> set y \<Longrightarrow> g b = x" by (rule own [OF y])
    then have here: "filter (\<lambda>b. g b = x) y = y" by (simp add: filter_id_conv)
    have "\<And>b. b \<in> set (concat ys') \<Longrightarrow> g b \<noteq> x"
    proof -
      fix b assume bmem: "b \<in> set (concat ys')"
      have "g b \<in> set xs"
      proof (rule collect_owner [OF ys' _ bmem])
        fix x' y' b' assume "f x' = Inr y'" "b' \<in> set y'"
        then show "g b' = x'" by (rule own)
      qed
      with fresh show "g b \<noteq> x" by metis
    qed
    then have "filter (\<lambda>b. g b = x) (concat ys') = []" by (simp add: filter_empty_conv)
    with here y ys True show ?thesis by simp
  next
    case False
    with Cons.prems(3) have mem: "a \<in> set xs" by simp
    from Cons.IH [OF ys' dist mem] obtain z where
      z: "f a = Inr z" "filter (\<lambda>b. g b = a) (concat ys') = z" by blast
    have "\<And>b. b \<in> set y \<Longrightarrow> g b \<noteq> a" using own [OF y] False by metis
    then have "filter (\<lambda>b. g b = a) y = []" by (simp add: filter_empty_conv)
    with z ys show ?thesis by simp
  qed
qed

lemma pushedBytecodes_owner:
  "b \<in> set (pushedBytecodes E solcVersion fileMap contract contractOutput) \<Longrightarrow>
     bc_contract b = contract"
  by (auto simp: pushedBytecodes_def split: if_splits)

text \<open>
  When the contract map names no contract twice, the bytecodes of the returned list that
  belong to a contract of the map are those pushed for it.
\<close>

lemma bytecodes_of_contract:
  assumes run: "decodeBytecodes E solcVersion compilerOutput s = Inr (s', bytecodes)"
    and dist: "distinct (map snd (contractIdToContract s))"
    and mem: "contract \<in> set (map snd (contractIdToContract s))"
  shows "\<exists>contractOutput.
           contractOutputOf compilerOutput s contract = Inr contractOutput
           \<and> filter (\<lambda>b. bc_contract b = contract) bytecodes
               = pushedBytecodes E solcVersion (fileIdToSourceFile s) contract contractOutput"
proof -
  let ?f = "\<lambda>contract.
              map_sum id (pushedBytecodes E solcVersion (fileIdToSourceFile s) contract)
                (contractOutputOf compilerOutput s contract)"
  let ?xs = "map snd (contractIdToContract s)"
  from decodeBytecodes_collect [of E solcVersion compilerOutput s] run
  have "map_sum id concat (collect (map ?f ?xs)) = Inr bytecodes" by simp
  then obtain ys where ys: "collect (map ?f ?xs) = Inr ys" and bs: "bytecodes = concat ys"
    by (cases "collect (map ?f ?xs)") auto
  have own: "\<And>x y b. ?f x = Inr y \<Longrightarrow> b \<in> set y \<Longrightarrow> bc_contract b = x"
  proof -
    fix x y b assume fx: "?f x = Inr y" and b: "b \<in> set y"
    from fx obtain contractOutput where
      "y = pushedBytecodes E solcVersion (fileIdToSourceFile s) x contractOutput"
      by (cases "contractOutputOf compilerOutput s x") auto
    with b show "bc_contract b = x" by (simp add: pushedBytecodes_owner)
  qed
  have "\<exists>y. ?f contract = Inr y \<and> filter (\<lambda>b. bc_contract b = contract) (concat ys) = y"
  proof (rule collect_filter [OF ys _ dist mem])
    fix x' y' b' assume "?f x' = Inr y'" "b' \<in> set y'"
    then show "bc_contract b' = x'" by (rule own)
  qed
  then obtain y where
    y: "?f contract = Inr y" "filter (\<lambda>b. bc_contract b = contract) (concat ys) = y" by blast
  from y(1) obtain contractOutput where
    "contractOutputOf compilerOutput s contract = Inr contractOutput"
    "y = pushedBytecodes E solcVersion (fileIdToSourceFile s) contract contractOutput"
    by (cases "contractOutputOf compilerOutput s contract") auto
  with y(2) bs show ?thesis by simp
qed

lemma contractOutputOf_object:
  "contractOutputOf compilerOutput s contract = Inr contractOutput \<Longrightarrow>
     \<exists>c. st_contracts s contract = Some c"
  by (auto simp: contractOutputOf_def split: option.splits)

lemma decodeBytecodesLoop_store:
  "decodeBytecodesLoop E solcVersion compilerOutput contracts t bytecodes = Inr (s', result) \<Longrightarrow>
   distinct contracts \<Longrightarrow>
     (contract \<notin> set contracts \<longrightarrow> st_contracts s' contract = st_contracts t contract)
     \<and> (contract \<in> set contracts \<longrightarrow>
          (\<exists>c contractOutput.
              st_contracts t contract = Some c
              \<and> contractOutputOf compilerOutput t contract = Inr contractOutput
              \<and> st_contracts s' contract
                  = Some (c\<lparr>c_customErrors :=
                             c_customErrors c @ customErrorsOfAbi E (co_abi contractOutput)\<rparr>)))"
proof (induction contracts arbitrary: t bytecodes)
  case Nil
  then show ?case by simp
next
  case (Cons h rest)
  from Cons.prems(1) obtain contractOutput where
    out: "contractOutputOf compilerOutput t h = Inr contractOutput"
    by (cases "contractOutputOf compilerOutput t h") (simp_all add: decodeContract_output)
  let ?t = "customErrorsLoop E h (co_abi contractOutput) t"
  let ?p = "pushedBytecodes E solcVersion (fileIdToSourceFile t) h contractOutput"
  from Cons.prems(1) out have
    rest: "decodeBytecodesLoop E solcVersion compilerOutput rest ?t (bytecodes @ ?p)
             = Inr (s', result)"
    by (simp add: decodeContract_output)
  from contractOutputOf_object [OF out] obtain ch where ch: "st_contracts t h = Some ch" by blast
  have store: "st_contracts ?t
                 = (st_contracts t)(h \<mapsto>
                      ch\<lparr>c_customErrors :=
                           c_customErrors ch @ customErrorsOfAbi E (co_abi contractOutput)\<rparr>)"
    by (rule customErrorsLoop_contracts [OF ch])
  have rel: "sameButErrors t ?t" by (rule sameButErrors_after [OF sameButErrors_refl])
  have same: "contractOutputOf compilerOutput ?t contract
                = contractOutputOf compilerOutput t contract"
    by (rule contractOutputOf_sameButErrors [OF rel])
  have fresh: "h \<notin> set rest" and dist: "distinct rest" using Cons.prems(2) by simp_all
  note ih = Cons.IH [OF rest dist]
  show ?case
  proof (cases "contract = h")
    case True
    with fresh ih have "st_contracts s' contract = st_contracts ?t contract" by simp
    with True store ch out show ?thesis by simp
  next
    case False
    then have other: "st_contracts ?t contract = st_contracts t contract"
      by (simp add: store)
    show ?thesis
    proof (cases "contract \<in> set rest")
      case True
      with ih obtain c co where
        "st_contracts ?t contract = Some c"
        "contractOutputOf compilerOutput ?t contract = Inr co"
        "st_contracts s' contract
           = Some (c\<lparr>c_customErrors := c_customErrors c @ customErrorsOfAbi E (co_abi co)\<rparr>)"
        by blast
      with other same have
        "st_contracts t contract = Some c
         \<and> contractOutputOf compilerOutput t contract = Inr co
         \<and> st_contracts s' contract
             = Some (c\<lparr>c_customErrors := c_customErrors c @ customErrorsOfAbi E (co_abi co)\<rparr>)"
        by simp
      then have "\<exists>c contractOutput.
              st_contracts t contract = Some c
              \<and> contractOutputOf compilerOutput t contract = Inr contractOutput
              \<and> st_contracts s' contract
                  = Some (c\<lparr>c_customErrors :=
                             c_customErrors c @ customErrorsOfAbi E (co_abi contractOutput)\<rparr>)"
        by (intro exI [of _ c] exI [of _ co])
      with True show ?thesis by simp
    next
      case notin: False
      with ih other False show ?thesis by simp
    qed
  qed
qed

text \<open>After the first two passes the contract map names no contract twice.\<close>

lemma built_contracts_distinct:
  assumes run: "createSourcesModelFromAst E compilerOutput compilerInput emptyState = Inr s'"
    and names: "distinct (map fst (out_sources compilerOutput))"
  shows "distinct (map snd (contractIdToContract s'))"
proof -
  from run obtain s where
    ps: "processSources E compilerOutput compilerInput (out_sources compilerOutput) emptyState
           = Inr s"
    and ap: "applyInheritanceLoop (contractIdToContract s) s = Inr s'"
    by (auto simp: createSourcesModelFromAst_def applyContractsInheritance_def split: sum.splits)
  have reg: "registered ({} \<union> set (map fst (out_sources compilerOutput))) s"
    by (rule registered_processSources [OF registered_empty names _ ps]) simp
  then have dv: "distinct (map snd (contractIdToContract s))"
    unfolding registered_def by blast
  from ap have "s' = s\<lparr>st_contracts :=
                       fold (resolveEntry (contractIdToContract s)
                               (contractIdToLinearizedBaseContractIds s))
                         (contractIdToContract s) (st_contracts s)\<rparr>"
    by (simp add: applyInheritanceLoop_eq split: if_splits)
  then have "contractIdToContract s' = contractIdToContract s" by simp
  with dv show ?thesis by simp
qed

text \<open>
  C10. When \<^verbatim>\<open>decodeBytecodes\<close> returns, every contract of the contract map has got, after
  the custom errors that it had, a custom error for each well-formed \<^verbatim>\<open>error\<close> entry of
  the ABI of its output, in the order of the ABI, whatever its bytecode object is; and
  when that object is the empty string, no bytecode of the returned list belongs to the
  contract. The contract map is taken to name no contract twice, as it does after the
  sources have been processed.
\<close>

theorem abstract_contract_keeps_custom_errors:
  assumes run: "decodeBytecodes E solcVersion compilerOutput s = Inr (s', bytecodes)"
    and dist: "distinct (map snd (contractIdToContract s))"
    and mem: "contract \<in> set (map snd (contractIdToContract s))"
  shows "\<exists>c contractOutput.
           st_contracts s contract = Some c
           \<and> contractOutputOf compilerOutput s contract = Inr contractOutput
           \<and> st_contracts s' contract
               = Some (c\<lparr>c_customErrors :=
                          c_customErrors c @ customErrorsOfAbi E (co_abi contractOutput)\<rparr>)
           \<and> (cb_object (co_bytecode contractOutput) = '''' \<longrightarrow>
                filter (\<lambda>b. bc_contract b = contract) bytecodes = [])"
proof -
  from run have loop: "decodeBytecodesLoop E solcVersion compilerOutput
                         (map snd (contractIdToContract s)) s [] = Inr (s', bytecodes)"
    by (simp add: decodeBytecodes_def)
  from decodeBytecodesLoop_store [OF loop dist, of contract] mem obtain c contractOutput where
    c: "st_contracts s contract = Some c"
    and out: "contractOutputOf compilerOutput s contract = Inr contractOutput"
    and errs: "st_contracts s' contract
               = Some (c\<lparr>c_customErrors :=
                          c_customErrors c @ customErrorsOfAbi E (co_abi contractOutput)\<rparr>)"
    by blast
  from bytecodes_of_contract [OF run dist mem] out have
    "filter (\<lambda>b. bc_contract b = contract) bytecodes
       = pushedBytecodes E solcVersion (fileIdToSourceFile s) contract contractOutput" by simp
  then have "cb_object (co_bytecode contractOutput) = '''' \<longrightarrow>
               filter (\<lambda>b. bc_contract b = contract) bytecodes = []"
    by (simp add: pushedBytecodes_def)
  with c out errs show ?thesis by blast
qed

lemma sample_decode_succeeds:
  "succeeds (decodeAfterBuild sampleExt ''0.8.0'' sampleInput sampleOutput)"
  by code_simp

lemma sample_bytecode_owners:
  "bytecodeOwners (decodeAfterBuild sampleExt ''0.8.0'' sampleInput sampleOutput)
     = Some [((''a.sol'', 0), True), ((''a.sol'', 0), False)]"
  by code_simp

lemma sample_abstract_errors:
  "customErrorsOf (decodeAfterBuild sampleExt ''0.8.0'' sampleInput sampleOutput) (''a.sol'', 2)
     = Some [\<lparr>ce_selector = [73, 110, 115, 117], ce_name = ''InsufficientBalance'',
              ce_paramTypes = [''uint256'']\<rparr>]"
  by code_simp

lemma sample_abstract_output:
  "outputAfterBuild sampleExt sampleInput sampleOutput (''a.sol'', 2) = Some ('''', 1)"
  by code_simp

theorem abstract_contract_witness:
  "\<exists>s s' bytecodes c contractOutput.
     createSourcesModelFromAst sampleExt sampleOutput sampleInput emptyState = Inr s
     \<and> decodeBytecodes sampleExt ''0.8.0'' sampleOutput s = Inr (s', bytecodes)
     \<and> distinct (map snd (contractIdToContract s))
     \<and> (''a.sol'', 2) \<in> set (map snd (contractIdToContract s))
     \<and> st_contracts s (''a.sol'', 2) = Some c
     \<and> contractOutputOf sampleOutput s (''a.sol'', 2) = Inr contractOutput
     \<and> cb_object (co_bytecode contractOutput) = ''''
     \<and> st_contracts s' (''a.sol'', 2)
         = Some (c\<lparr>c_customErrors :=
                    c_customErrors c @ customErrorsOfAbi sampleExt (co_abi contractOutput)\<rparr>)
     \<and> map_option c_customErrors (st_contracts s' (''a.sol'', 2))
         = Some [\<lparr>ce_selector = [73, 110, 115, 117], ce_name = ''InsufficientBalance'',
                  ce_paramTypes = [''uint256'']\<rparr>]
     \<and> filter (\<lambda>b. bc_contract b = (''a.sol'', 2)) bytecodes = []"
proof -
  from succeeds_Inr [OF sample_build_succeeds] obtain s where
    build: "createSourcesModelFromAst sampleExt sampleOutput sampleInput emptyState = Inr s"
    by blast
  from succeeds_Inr [OF sample_decode_succeeds] build obtain r where
    "decodeBytecodes sampleExt ''0.8.0'' sampleOutput s = Inr r"
    by (auto simp: decodeAfterBuild_def)
  then obtain s' bytecodes where
    run: "decodeBytecodes sampleExt ''0.8.0'' sampleOutput s = Inr (s', bytecodes)"
    by (cases r) simp
  have cm: "contractIdToContract s = [(1, (''a.sol'', 0)), (2, (''a.sol'', 2))]"
    using sample_build_contractMap by (simp add: build contractMapOf_def)
  have dist: "distinct (map snd (contractIdToContract s))" by (simp add: cm)
  have mem: "(''a.sol'', 2) \<in> set (map snd (contractIdToContract s))" by (simp add: cm)
  from abstract_contract_keeps_custom_errors [OF run dist mem] obtain c contractOutput where
    r: "st_contracts s (''a.sol'', 2) = Some c"
       "contractOutputOf sampleOutput s (''a.sol'', 2) = Inr contractOutput"
       "st_contracts s' (''a.sol'', 2)
          = Some (c\<lparr>c_customErrors :=
                     c_customErrors c @ customErrorsOfAbi sampleExt (co_abi contractOutput)\<rparr>)"
       "cb_object (co_bytecode contractOutput) = '''' \<longrightarrow>
          filter (\<lambda>b. bc_contract b = (''a.sol'', 2)) bytecodes = []"
    by blast
  have obj: "cb_object (co_bytecode contractOutput) = ''''"
    using sample_abstract_output by (simp add: outputAfterBuild_def build r(2))
  with r(4) have none: "filter (\<lambda>b. bc_contract b = (''a.sol'', 2)) bytecodes = []" by simp
  have errs: "map_option c_customErrors (st_contracts s' (''a.sol'', 2))
         = Some [\<lparr>ce_selector = [73, 110, 115, 117], ce_name = ''InsufficientBalance'',
                  ce_paramTypes = [''uint256'']\<rparr>]"
    using sample_abstract_errors by (simp add: customErrorsOf_def decodeAfterBuild_def build run)
  from build run dist mem r(1,2) obj r(3) errs none show ?thesis by blast
qed

section \<open>The order of the sources\<close>

subsection \<open>Sources whose nodes name their own file\<close>

lemma location_own:
  "map_of fileMap fileId = Some file \<Longrightarrow> src_fileIndex src = fileId \<Longrightarrow>
     astSrcToSourceLocation src fileMap = astSrcToSourceLocation src [(fileId, file)]"
  by (simp add: astSrcToSourceLocation_def)

lemma newContractFunction_own:
  "map_of fileMap fileId = Some file \<Longrightarrow> src_fileIndex (fd_src node) = fileId \<Longrightarrow>
     newContractFunction E node fileMap contract functionAbis
       = newContractFunction E node [(fileId, file)] contract functionAbis"
  by (simp add: newContractFunction_def location_own [of fileMap fileId "file"])

lemma memberFunctions_own:
  "map_of fileMap fileId = Some file \<Longrightarrow> list_all (ownMember fileId) nodes \<Longrightarrow>
     memberFunctions E fileMap contract contractAbi nodes
       = memberFunctions E [(fileId, file)] contract contractAbi nodes"
proof (induction nodes)
  case Nil
  show ?case by simp
next
  case (Cons member rest)
  then have ih: "memberFunctions E fileMap contract contractAbi rest
                  = memberFunctions E [(fileId, file)] contract contractAbi rest" by simp
  show ?case
  proof (cases member)
    case (FunctionDefinitionNode node)
    with Cons.prems have "src_fileIndex (fd_src node) = fileId" by simp
    from newContractFunction_own [OF Cons.prems(1) this] FunctionDefinitionNode ih
    show ?thesis by (simp split: sum.splits option.splits prod.splits)
  next
    case (ModifierDefinitionNode node)
    with Cons.prems have "src_fileIndex (md_src node) = fileId" by simp
    from location_own [OF Cons.prems(1) this] ModifierDefinitionNode ih
    show ?thesis by (simp split: sum.splits option.splits prod.splits)
  next
    case (VariableDeclarationNode node)
    with Cons.prems have "src_fileIndex (vd_src node) = fileId" by simp
    from location_own [OF Cons.prems(1) this] VariableDeclarationNode ih
    show ?thesis by (simp split: sum.splits option.splits prod.splits)
  next
    case (OtherMember nodeType)
    with ih show ?thesis by (simp split: sum.splits option.splits prod.splits)
  qed
qed

lemma sourceSummary_own:
  "map_of fileMap fileId = Some file \<Longrightarrow> list_all (ownNode fileId) nodes \<Longrightarrow>
     sourceSummary E fileMap file contractToAbi i nodes
       = sourceSummary E [(fileId, file)] file contractToAbi i nodes"
proof (induction nodes arbitrary: i)
  case Nil
  show ?case by simp
next
  case (Cons n rest)
  then have ih: "\<And>i. sourceSummary E fileMap file contractToAbi i rest
                  = sourceSummary E [(fileId, file)] file contractToAbi i rest" by simp
  show ?case
  proof (cases n)
    case (ContractDefinitionNode node)
    with Cons.prems have own: "src_fileIndex (cd_src node) = fileId"
      and members: "list_all (ownMember fileId) (cd_nodes node)" by simp_all
    from location_own [OF Cons.prems(1) own] memberFunctions_own [OF Cons.prems(1) members]
      ContractDefinitionNode ih
    show ?thesis by (simp split: sum.splits option.splits prod.splits)
  next
    case (TopLevelFunctionNode node)
    with Cons.prems have "src_fileIndex (fd_src node) = fileId" by simp
    from newContractFunction_own [OF Cons.prems(1) this] TopLevelFunctionNode ih
    show ?thesis by (simp split: sum.splits option.splits prod.splits)
  next
    case (OtherNode nodeType)
    with ih show ?thesis by (simp split: sum.splits option.splits prod.splits)
  qed
qed

lemma sourceSummary_abiOf:
  "abiOf contractToAbi = abiOf contractToAbi' \<Longrightarrow>
     sourceSummary E fileMap file contractToAbi i nodes
       = sourceSummary E fileMap file contractToAbi' i nodes"
proof (induction nodes arbitrary: i)
  case Nil
  show ?case by simp
next
  case (Cons n rest)
  then have ih: "\<And>i. sourceSummary E fileMap file contractToAbi i rest
                  = sourceSummary E fileMap file contractToAbi' i rest" by simp
  show ?case
  proof (cases n)
    case (ContractDefinitionNode node)
    from Cons.prems have "abiOf contractToAbi (cd_name node) = abiOf contractToAbi' (cd_name node)"
      by simp
    then have "(case contractToAbi of None \<Rightarrow> None
                | Some entries \<Rightarrow> map_option co_abi (map_of entries (cd_name node)))
             = (case contractToAbi' of None \<Rightarrow> None
                | Some entries \<Rightarrow> map_option co_abi (map_of entries (cd_name node)))"
      by (simp add: abiOf_def)
    with ContractDefinitionNode ih show ?thesis by (simp split: sum.splits option.splits prod.splits)
  next
    case (TopLevelFunctionNode node)
    with ih show ?thesis by (simp split: sum.splits option.splits prod.splits)
  next
    case (OtherNode nodeType)
    with ih show ?thesis by (simp split: sum.splits option.splits prod.splits)
  qed
qed

lemma sourceSummary_ids:
  "sourceSummary E fileMap file contractToAbi i nodes = Inr (fs, cs) \<Longrightarrow>
     map nc_id cs = definedIds nodes"
proof (induction nodes arbitrary: i fs cs)
  case Nil
  then show ?case by simp
next
  case (Cons n rest)
  show ?case
  proof (cases n)
    case (ContractDefinitionNode node)
    show ?thesis
    proof (cases "contractKindToContractType (cd_contractKind node)")
      case None
      with ContractDefinitionNode Cons.prems have
        "sourceSummary E fileMap file contractToAbi (Suc i) rest = Inr (fs, cs)" by simp
      from Cons.IH [OF this] ContractDefinitionNode None show ?thesis by simp
    next
      case (Some contractType)
      with ContractDefinitionNode Cons.prems obtain fs' cs' nc where
        rest: "sourceSummary E fileMap file contractToAbi (Suc i) rest = Inr (fs', cs')"
        and cs: "cs = nc # cs'" and nc: "nc_id nc = cd_id node"
        by (auto split: sum.splits)
      from Cons.IH [OF rest] cs nc ContractDefinitionNode Some show ?thesis by simp
    qed
  next
    case (TopLevelFunctionNode node)
    with Cons.prems obtain fs' where
      "sourceSummary E fileMap file contractToAbi (Suc i) rest = Inr (fs', cs)"
      by (auto split: if_splits sum.splits)
    from Cons.IH [OF this] TopLevelFunctionNode show ?thesis by simp
  next
    case (OtherNode nodeType)
    with Cons.prems have
      "sourceSummary E fileMap file contractToAbi (Suc i) rest = Inr (fs, cs)" by simp
    from Cons.IH [OF this] OtherNode show ?thesis by simp
  qed
qed

subsection \<open>The first pass as a fold of summaries\<close>

lemma processSource_summary:
  assumes "ownSource entry"
  shows "processSource E compilerOutput compilerInput entry s
           = (case summaryOf E compilerOutput compilerInput entry of
                Inl e \<Rightarrow> Inl e
              | Inr sm \<Rightarrow> Inr (applySummary sm s))"
proof -
  obtain sourceName source where entry: "entry = (sourceName, source)" by (cases entry)
  have own: "list_all (ownNode (cs_id source)) (cs_nodes source)"
    using assms by (simp add: ownSource_def entry)
  have look: "map_of (AList.update (cs_id source) sourceName (fileIdToSourceFile s)) (cs_id source)
                = Some sourceName"
    by (simp add: update_conv')
  show ?thesis
    unfolding entry processSource_eq summaryOf_def applySummary_def
    by (simp add: sourceSummary_own [OF look own] split: option.splits sum.splits prod.splits)
qed

lemma processSources_summary:
  "list_all ownSource sources \<Longrightarrow>
     processSources E compilerOutput compilerInput sources s
       = (case collect (map (summaryOf E compilerOutput compilerInput) sources) of
            Inl e \<Rightarrow> Inl e
          | Inr sms \<Rightarrow> Inr (fold applySummary sms s))"
proof (induction sources arbitrary: s)
  case Nil
  show ?case by simp
next
  case (Cons entry rest)
  then have own: "ownSource entry" and ih:
    "\<And>s. processSources E compilerOutput compilerInput rest s
       = (case collect (map (summaryOf E compilerOutput compilerInput) rest) of
            Inl e \<Rightarrow> Inl e
          | Inr sms \<Rightarrow> Inr (fold applySummary sms s))" by simp_all
  obtain sourceName source where entry: "entry = (sourceName, source)" by (cases entry)
  show ?case
    using processSource_summary [OF own, of E compilerOutput compilerInput s]
    by (simp add: entry ih split: sum.splits)
qed

lemma registerContracts_fields:
  "st_files (registerContracts cs s) = st_files s"
  "fileIdToSourceFile (registerContracts cs s) = fileIdToSourceFile s"
  "st_log (registerContracts cs s) = st_log s"
  "st_contracts (registerContracts cs s) = fold putContract cs (st_contracts s)"
  "contractIdToContract (registerContracts cs s)
     = fold (\<lambda>nc. AList.update (nc_id nc) (nc_address nc)) cs (contractIdToContract s)"
  "contractIdToLinearizedBaseContractIds (registerContracts cs s)
     = fold (\<lambda>nc. AList.update (nc_id nc) (nc_baseIds nc)) cs
         (contractIdToLinearizedBaseContractIds s)"
  by (simp_all add: registerContracts_def)

lemma fold_applySummary_fields:
  "st_files (fold applySummary sms s) = fold putFile sms (st_files s)"
  "fileIdToSourceFile (fold applySummary sms s)
     = fold (\<lambda>sm. AList.update (sm_id sm) (sm_name sm)) sms (fileIdToSourceFile s)"
  "st_contracts (fold applySummary sms s)
     = fold putContract (concat (map sm_contracts sms)) (st_contracts s)"
  "contractIdToContract (fold applySummary sms s)
     = fold (\<lambda>nc. AList.update (nc_id nc) (nc_address nc)) (concat (map sm_contracts sms))
         (contractIdToContract s)"
  "contractIdToLinearizedBaseContractIds (fold applySummary sms s)
     = fold (\<lambda>nc. AList.update (nc_id nc) (nc_baseIds nc)) (concat (map sm_contracts sms))
         (contractIdToLinearizedBaseContractIds s)"
  by (induction sms arbitrary: s;
      simp add: applySummary_def registerContracts_fields putFile_def)+

subsection \<open>Runs collected from a list\<close>

lemma collect_Inr_map:
  "collect (map f xs) = Inr ys \<Longrightarrow> ys = map (\<lambda>x. projr (f x)) xs"
proof (induction xs arbitrary: ys)
  case Nil
  then show ?case by simp
next
  case (Cons x xs)
  from Cons.prems obtain y ys' where
    "f x = Inr y" "collect (map f xs) = Inr ys'" "ys = y # ys'"
    by (auto split: sum.splits)
  with Cons.IH [of ys'] show ?case by simp
qed

lemma collect_Inr_iff:
  "(\<exists>ys. collect (map f xs) = Inr ys) \<longleftrightarrow> (\<forall>x \<in> set xs. \<exists>y. f x = Inr y)"
proof (induction xs)
  case Nil
  show ?case by simp
next
  case (Cons x xs)
  show ?case
  proof (cases "f x")
    case (Inl e)
    then show ?thesis by simp
  next
    case (Inr y)
    show ?thesis
    proof (cases "collect (map f xs)")
      case (Inl e)
      with Cons.IH have "\<not> (\<forall>x \<in> set xs. \<exists>y. f x = Inr y)" by simp
      with Inl Inr show ?thesis by simp
    next
      case inr: (Inr ys)
      with Cons.IH have "\<forall>x \<in> set xs. \<exists>y. f x = Inr y" by blast
      with inr Inr show ?thesis by simp
    qed
  qed
qed

lemma collect_permuted:
  assumes "mset xs = mset xs'"
  shows "(\<exists>e. collect (map f xs) = Inl e) \<longleftrightarrow> (\<exists>e. collect (map f xs') = Inl e)"
proof -
  have "set xs = set xs'" using assms by (rule mset_eq_setD)
  then have "(\<exists>ys. collect (map f xs) = Inr ys) \<longleftrightarrow> (\<exists>ys. collect (map f xs') = Inr ys)"
    by (simp add: collect_Inr_iff)
  then show ?thesis
    by (cases "collect (map f xs)"; cases "collect (map f xs')") simp_all
qed

subsection \<open>Maps filled in any order\<close>

lemma putAll_permuted:
  assumes dist: "distinct (map key xs)" and perm: "mset xs = mset ys"
  shows "putAll key val xs m = putAll key val ys m"
proof -
  have "fold (\<lambda>x m. m(key x \<mapsto> val x)) xs = fold (\<lambda>x m. m(key x \<mapsto> val x)) ys"
  proof (rule fold_multiset_equiv [OF _ perm])
    fix x y assume x: "x \<in> set xs" and y: "y \<in> set xs"
    show "(\<lambda>m. m(key x \<mapsto> val x)) \<circ> (\<lambda>m. m(key y \<mapsto> val y))
            = (\<lambda>m. m(key y \<mapsto> val y)) \<circ> (\<lambda>m. m(key x \<mapsto> val x))"
    proof (cases "x = y")
      case True
      then show ?thesis by simp
    next
      case False
      from dist have "inj_on key (set xs)" by (simp add: distinct_map)
      with x y False have "key x \<noteq> key y" by (auto dest: inj_onD)
      then show ?thesis by (auto simp: fun_eq_iff)
    qed
  qed
  then show ?thesis by (simp add: putAll_def)
qed

lemma map_of_fold_update:
  "map_of (fold (\<lambda>x. AList.update (key x) (val x)) xs al) = putAll key val xs (map_of al)"
  by (induction xs arbitrary: al) (simp_all add: putAll_def update_conv')

lemma fold_putFile: "fold putFile sms m = putAll sm_name sm_file sms m"
  by (induction sms arbitrary: m) (simp_all add: putAll_def putFile_def)

lemma fold_putContract: "fold putContract cs m = putAll nc_address nc_contract cs m"
  by (induction cs arbitrary: m) (simp_all add: putAll_def putContract_def)

lemma distinct_keys_fold_update:
  "distinct (map fst al) \<Longrightarrow>
     distinct (map fst (fold (\<lambda>x. AList.update (key x) (val x)) xs al))"
  by (induction xs arbitrary: al) (simp_all add: distinct_update)

lemma mset_concat_map_permuted:
  "mset xs = mset ys \<Longrightarrow> mset (concat (map f xs)) = mset (concat (map f ys))"
proof -
  assume perm: "mset xs = mset ys"
  have "\<And>zs. mset (concat (map f zs)) = \<Sum>\<^sub># (image_mset (\<lambda>z. mset (f z)) (mset zs))"
  proof -
    fix zs
    show "mset (concat (map f zs)) = \<Sum>\<^sub># (image_mset (\<lambda>z. mset (f z)) (mset zs))"
      by (induction zs) simp_all
  qed
  with perm show ?thesis by simp
qed

lemma distinct_concat_keyed:
  assumes "distinct (map key xs)"
    and "\<And>x. x \<in> set xs \<Longrightarrow> distinct (f x)"
    and "\<And>x y. x \<in> set xs \<Longrightarrow> y \<in> set (f x) \<Longrightarrow> tag y = key x"
  shows "distinct (concat (map f xs))"
  using assms
proof (induction xs)
  case Nil
  show ?case by simp
next
  case (Cons x xs)
  have ih: "distinct (concat (map f xs))"
  proof (rule Cons.IH)
    show "distinct (map key xs)" using Cons.prems(1) by simp
    show "\<And>x. x \<in> set xs \<Longrightarrow> distinct (f x)" using Cons.prems(2) by simp
    show "\<And>x y. x \<in> set xs \<Longrightarrow> y \<in> set (f x) \<Longrightarrow> tag y = key x"
      using Cons.prems(3) by simp
  qed
  have here: "distinct (f x)" using Cons.prems(2) by simp
  have disjoint: "set (f x) \<inter> set (concat (map f xs)) = {}"
  proof (rule ccontr)
    assume "set (f x) \<inter> set (concat (map f xs)) \<noteq> {}"
    then obtain y x' where y: "y \<in> set (f x)" and x': "x' \<in> set xs" and y': "y \<in> set (f x')"
      by auto
    have "tag y = key x" using Cons.prems(3) [of x y] y by simp
    moreover have "tag y = key x'" using Cons.prems(3) [of x' y] x' y' by simp
    moreover have "key x \<notin> key ` set xs" using Cons.prems(1) by simp
    ultimately show False using x' by (metis image_eqI)
  qed
  from ih here disjoint show ?case by simp
qed

subsection \<open>The first pass on sources in another order\<close>

lemma summaryOf_fields:
  assumes "summaryOf E compilerOutput compilerInput entry = Inr sm"
  shows "sm_name sm = fst entry" and "sm_id sm = cs_id (snd entry)"
    and "\<exists>fs. sourceSummary E [(cs_id (snd entry), fst entry)] (fst entry)
                 (map_of (out_contracts compilerOutput) (fst entry)) 0 (cs_nodes (snd entry))
               = Inr (fs, sm_contracts sm)"
  using assms by (auto simp: summaryOf_def split: option.splits sum.splits)

lemma summaryOf_cong:
  assumes outs: "\<forall>file. map_option map_of (map_of (out_contracts compilerOutput') file)
                         = map_option map_of (map_of (out_contracts compilerOutput) file)"
    and inps: "map_of compilerInput' = map_of compilerInput"
  shows "summaryOf E compilerOutput' compilerInput' entry
           = summaryOf E compilerOutput compilerInput entry"
proof -
  let ?a' = "map_of (out_contracts compilerOutput') (fst entry)"
  let ?a = "map_of (out_contracts compilerOutput) (fst entry)"
  from outs have eq: "map_option map_of ?a' = map_option map_of ?a" by simp
  have "abiOf ?a' = abiOf ?a"
  proof (cases ?a')
    case None
    with eq have "?a = None" by simp
    with None show ?thesis by simp
  next
    case (Some entries')
    with eq obtain entries where e: "?a = Some entries" "map_of entries' = map_of entries"
      by (cases ?a) auto
    with Some show ?thesis by (simp add: abiOf_def fun_eq_iff)
  qed
  then have "sourceSummary E [(cs_id (snd entry), fst entry)] (fst entry) ?a' 0
               (cs_nodes (snd entry))
             = sourceSummary E [(cs_id (snd entry), fst entry)] (fst entry) ?a 0
                 (cs_nodes (snd entry))"
    by (rule sourceSummary_abiOf)
  then show ?thesis by (simp add: summaryOf_def inps split: option.splits)
qed

lemma wellFormedSources_permuted:
  assumes perm: "mset sources' = mset sources" and wf: "wellFormedSources sources"
  shows "wellFormedSources sources'"
proof -
  have m: "\<And>f. mset (map f sources') = mset (map f sources)" using perm by simp
  have names: "distinct (map fst sources')"
    using wf mset_eq_imp_distinct_iff [OF m [of fst]] by (simp add: wellFormedSources_def)
  have ids: "distinct (map (\<lambda>entry. cs_id (snd entry)) sources')"
    using wf mset_eq_imp_distinct_iff [OF m [of "\<lambda>entry. cs_id (snd entry)"]]
    by (simp add: wellFormedSources_def)
  have "set sources' = set sources" using perm by (rule mset_eq_setD)
  then have own: "list_all ownSource sources'"
    using wf by (simp add: wellFormedSources_def list_all_iff)
  have "mset (concat (map (\<lambda>entry. definedIds (cs_nodes (snd entry))) sources'))
          = mset (concat (map (\<lambda>entry. definedIds (cs_nodes (snd entry))) sources))"
    using perm by (rule mset_concat_map_permuted)
  from mset_eq_imp_distinct_iff [OF this] wf have
    "distinct (concat (map (\<lambda>entry. definedIds (cs_nodes (snd entry))) sources'))"
    by (simp add: wellFormedSources_def)
  with names ids own show ?thesis by (simp add: wellFormedSources_def)
qed

lemma summaries_facts:
  assumes wf: "wellFormedSources sources"
    and c: "collect (map (summaryOf E compilerOutput compilerInput) sources) = Inr sms"
  shows "sms = map (\<lambda>entry. projr (summaryOf E compilerOutput compilerInput entry)) sources"
    and "distinct (map sm_name sms)"
    and "distinct (map sm_id sms)"
    and "distinct (map nc_address (concat (map sm_contracts sms)))"
    and "distinct (map nc_id (concat (map sm_contracts sms)))"
proof -
  let ?g = "summaryOf E compilerOutput compilerInput"
  let ?h = "\<lambda>entry. projr (?g entry)"
  show sms: "sms = map ?h sources" using c by (rule collect_Inr_map)
  have ok: "\<And>entry. entry \<in> set sources \<Longrightarrow> ?g entry = Inr (?h entry)"
  proof -
    fix entry assume "entry \<in> set sources"
    with c collect_Inr_iff [of ?g sources] obtain sm where "?g entry = Inr sm" by blast
    then show "?g entry = Inr (?h entry)" by simp
  qed
  have "map sm_name sms = map fst sources"
    unfolding sms using summaryOf_fields(1) [OF ok] by (simp cong: map_cong)
  with wf show names: "distinct (map sm_name sms)" by (simp add: wellFormedSources_def)
  have "map sm_id sms = map (\<lambda>entry. cs_id (snd entry)) sources"
    unfolding sms using summaryOf_fields(2) [OF ok] by (simp cong: map_cong)
  with wf show "distinct (map sm_id sms)" by (simp add: wellFormedSources_def)
  have member: "\<And>sm. sm \<in> set sms \<Longrightarrow> \<exists>entry \<in> set sources. ?g entry = Inr sm"
    unfolding sms using ok by auto
  have "distinct (concat (map (\<lambda>sm. map nc_address (sm_contracts sm)) sms))"
  proof (rule distinct_concat_keyed [where key = sm_name and tag = fst, OF names])
    fix sm assume "sm \<in> set sms"
    from member [OF this] obtain entry where g: "?g entry = Inr sm" by blast
    from summaryOf_fields(3) [OF g] obtain fs where
      "sourceSummary E [(cs_id (snd entry), fst entry)] (fst entry)
         (map_of (out_contracts compilerOutput) (fst entry)) 0 (cs_nodes (snd entry))
       = Inr (fs, sm_contracts sm)" by blast
    from sourceSummary_addresses [OF this] show "distinct (map nc_address (sm_contracts sm))"
      by simp
  next
    fix sm y assume "sm \<in> set sms" and y: "y \<in> set (map nc_address (sm_contracts sm))"
    from member [OF this(1)] obtain entry where g: "?g entry = Inr sm" by blast
    from summaryOf_fields(3) [OF g] obtain fs where
      "sourceSummary E [(cs_id (snd entry), fst entry)] (fst entry)
         (map_of (out_contracts compilerOutput) (fst entry)) 0 (cs_nodes (snd entry))
       = Inr (fs, sm_contracts sm)" by blast
    from sourceSummary_addresses [OF this] have
      "\<forall>nc \<in> set (sm_contracts sm). fst (nc_address nc) = fst entry" by simp
    with y have "fst y = fst entry" by auto
    with summaryOf_fields(1) [OF g] show "fst y = sm_name sm" by simp
  qed
  then show "distinct (map nc_address (concat (map sm_contracts sms)))"
    by (simp add: map_concat comp_def)
  have "\<And>entry. entry \<in> set sources \<Longrightarrow>
          map nc_id (sm_contracts (?h entry)) = definedIds (cs_nodes (snd entry))"
  proof -
    fix entry assume "entry \<in> set sources"
    from summaryOf_fields(3) [OF ok [OF this]] obtain fs where
      "sourceSummary E [(cs_id (snd entry), fst entry)] (fst entry)
         (map_of (out_contracts compilerOutput) (fst entry)) 0 (cs_nodes (snd entry))
       = Inr (fs, sm_contracts (?h entry))" by blast
    then show "map nc_id (sm_contracts (?h entry)) = definedIds (cs_nodes (snd entry))"
      by (rule sourceSummary_ids)
  qed
  then have "map nc_id (concat (map sm_contracts sms))
               = concat (map (\<lambda>entry. definedIds (cs_nodes (snd entry))) sources)"
    unfolding sms by (simp add: map_concat comp_def cong: map_cong)
  with wf show "distinct (map nc_id (concat (map sm_contracts sms)))"
    by (simp add: wellFormedSources_def)
qed

text \<open>
  The files, the contracts and the three maps after the first pass, as maps filled from
  the summaries of the sources.
\<close>

lemma first_pass_content:
  assumes wf: "wellFormedSources sources"
    and run: "processSources E compilerOutput compilerInput sources emptyState = Inr s"
  shows "\<exists>sms. collect (map (summaryOf E compilerOutput compilerInput) sources) = Inr sms
           \<and> st_files s = putAll sm_name sm_file sms Map.empty
           \<and> map_of (fileIdToSourceFile s) = putAll sm_id sm_name sms Map.empty
           \<and> st_contracts s
               = putAll nc_address nc_contract (concat (map sm_contracts sms)) Map.empty
           \<and> map_of (contractIdToContract s)
               = putAll nc_id nc_address (concat (map sm_contracts sms)) Map.empty
           \<and> map_of (contractIdToLinearizedBaseContractIds s)
               = putAll nc_id nc_baseIds (concat (map sm_contracts sms)) Map.empty
           \<and> distinct (map fst (contractIdToContract s))"
proof -
  from wf have own: "list_all ownSource sources" by (simp add: wellFormedSources_def)
  from run processSources_summary [OF own, of E compilerOutput compilerInput emptyState]
  obtain sms where c: "collect (map (summaryOf E compilerOutput compilerInput) sources) = Inr sms"
    and s: "s = fold applySummary sms emptyState"
    by (cases "collect (map (summaryOf E compilerOutput compilerInput) sources)") auto
  have e: "st_files emptyState = Map.empty" "fileIdToSourceFile emptyState = []"
    "st_contracts emptyState = Map.empty" "contractIdToContract emptyState = []"
    "contractIdToLinearizedBaseContractIds emptyState = []"
    by (simp_all add: emptyState_def)
  have files: "st_files s = putAll sm_name sm_file sms Map.empty"
    by (simp add: s fold_applySummary_fields e fold_putFile)
  have fm: "map_of (fileIdToSourceFile s) = putAll sm_id sm_name sms Map.empty"
    by (simp add: s fold_applySummary_fields e map_of_fold_update)
  have store: "st_contracts s
                 = putAll nc_address nc_contract (concat (map sm_contracts sms)) Map.empty"
    by (simp add: s fold_applySummary_fields e fold_putContract)
  have cm: "map_of (contractIdToContract s)
              = putAll nc_id nc_address (concat (map sm_contracts sms)) Map.empty"
    by (simp add: s fold_applySummary_fields e map_of_fold_update)
  have li: "map_of (contractIdToLinearizedBaseContractIds s)
              = putAll nc_id nc_baseIds (concat (map sm_contracts sms)) Map.empty"
    by (simp add: s fold_applySummary_fields e map_of_fold_update)
  have keys: "distinct (map fst (contractIdToContract s))"
    by (simp add: s fold_applySummary_fields e distinct_keys_fold_update)
  from c files fm store cm li keys show ?thesis by blast
qed

lemma first_pass_permuted:
  assumes wf: "wellFormedSources sources"
    and perm: "mset sources' = mset sources"
    and same: "\<And>entry. summaryOf E compilerOutput' compilerInput' entry
                        = summaryOf E compilerOutput compilerInput entry"
    and run: "processSources E compilerOutput compilerInput sources emptyState = Inr s"
    and run': "processSources E compilerOutput' compilerInput' sources' emptyState = Inr s'"
  shows "st_files s' = st_files s"
    and "st_contracts s' = st_contracts s"
    and "map_of (fileIdToSourceFile s') = map_of (fileIdToSourceFile s)"
    and "map_of (contractIdToContract s') = map_of (contractIdToContract s)"
    and "map_of (contractIdToLinearizedBaseContractIds s')
           = map_of (contractIdToLinearizedBaseContractIds s)"
proof -
  let ?g = "summaryOf E compilerOutput compilerInput"
  have wf': "wellFormedSources sources'" by (rule wellFormedSources_permuted [OF perm wf])
  have g': "summaryOf E compilerOutput' compilerInput' = ?g" using same by (simp add: fun_eq_iff)
  from first_pass_content [OF wf run] obtain sms where
    c: "collect (map ?g sources) = Inr sms"
    and f: "st_files s = putAll sm_name sm_file sms Map.empty"
       "map_of (fileIdToSourceFile s) = putAll sm_id sm_name sms Map.empty"
       "st_contracts s = putAll nc_address nc_contract (concat (map sm_contracts sms)) Map.empty"
       "map_of (contractIdToContract s)
          = putAll nc_id nc_address (concat (map sm_contracts sms)) Map.empty"
       "map_of (contractIdToLinearizedBaseContractIds s)
          = putAll nc_id nc_baseIds (concat (map sm_contracts sms)) Map.empty"
    by blast
  from first_pass_content [OF wf' run'] g' obtain sms' where
    c': "collect (map ?g sources') = Inr sms'"
    and f': "st_files s' = putAll sm_name sm_file sms' Map.empty"
       "map_of (fileIdToSourceFile s') = putAll sm_id sm_name sms' Map.empty"
       "st_contracts s' = putAll nc_address nc_contract (concat (map sm_contracts sms')) Map.empty"
       "map_of (contractIdToContract s')
          = putAll nc_id nc_address (concat (map sm_contracts sms')) Map.empty"
       "map_of (contractIdToLinearizedBaseContractIds s')
          = putAll nc_id nc_baseIds (concat (map sm_contracts sms')) Map.empty"
    by auto
  note facts = summaries_facts [OF wf' c']
  have "sms = map (\<lambda>entry. projr (?g entry)) sources" by (rule summaries_facts(1) [OF wf c])
  with facts(1) perm have p: "mset sms' = mset sms" by simp
  then have pc: "mset (concat (map sm_contracts sms')) = mset (concat (map sm_contracts sms))"
    by (rule mset_concat_map_permuted)
  show "st_files s' = st_files s"
    unfolding f f' by (rule putAll_permuted [OF facts(2) p])
  show "st_contracts s' = st_contracts s"
    unfolding f f' by (rule putAll_permuted [OF facts(4) pc])
  show "map_of (fileIdToSourceFile s') = map_of (fileIdToSourceFile s)"
    unfolding f f' by (rule putAll_permuted [OF facts(3) p])
  show "map_of (contractIdToContract s') = map_of (contractIdToContract s)"
    unfolding f f' by (rule putAll_permuted [OF facts(5) pc])
  show "map_of (contractIdToLinearizedBaseContractIds s')
           = map_of (contractIdToLinearizedBaseContractIds s)"
    unfolding f f' by (rule putAll_permuted [OF facts(5) pc])
qed

lemma first_pass_raises_permuted:
  assumes wf: "wellFormedSources sources"
    and perm: "mset sources' = mset sources"
    and same: "\<And>entry. summaryOf E compilerOutput' compilerInput' entry
                        = summaryOf E compilerOutput compilerInput entry"
  shows "(\<exists>e. processSources E compilerOutput' compilerInput' sources' emptyState = Inl e)
           \<longleftrightarrow> (\<exists>e. processSources E compilerOutput compilerInput sources emptyState = Inl e)"
proof -
  let ?g = "summaryOf E compilerOutput compilerInput"
  have wf': "wellFormedSources sources'" by (rule wellFormedSources_permuted [OF perm wf])
  have g': "summaryOf E compilerOutput' compilerInput' = ?g" using same by (simp add: fun_eq_iff)
  from wf wf' have own: "list_all ownSource sources" "list_all ownSource sources'"
    by (simp_all add: wellFormedSources_def)
  have "(\<exists>e. processSources E compilerOutput compilerInput sources emptyState = Inl e)
          \<longleftrightarrow> (\<exists>e. collect (map ?g sources) = Inl e)"
    unfolding processSources_summary [OF own(1)]
    by (cases "collect (map ?g sources)") simp_all
  moreover have "(\<exists>e. processSources E compilerOutput' compilerInput' sources' emptyState = Inl e)
          \<longleftrightarrow> (\<exists>e. collect (map ?g sources') = Inl e)"
    unfolding processSources_summary [OF own(2)] g'
    by (cases "collect (map ?g sources')") simp_all
  ultimately show ?thesis using collect_permuted [OF perm, of ?g] by simp
qed

subsection \<open>The inheritance pass on maps in another order\<close>

lemma resolveEntry_cong:
  assumes cm: "map_of cm = map_of cm'" and li: "map_of li = map_of li'"
  shows "resolveEntry cm li = resolveEntry cm' li'"
proof (intro ext)
  fix entry m a
  have rb: "resolveBaseContracts cm = resolveBaseContracts cm'"
    by (rule ext) (simp add: resolveBaseContracts_def cm)
  show "resolveEntry cm li entry m a = resolveEntry cm' li' entry m a"
    unfolding resolveEntry_def rb li by (rule refl)
qed

lemma hasBaseIds_cong:
  "map_of li = map_of li' \<Longrightarrow> hasBaseIds li = hasBaseIds li'"
  by (simp add: fun_eq_iff hasBaseIds_def)

lemma fold_resolveEntry_permuted:
  assumes entries: "set cm = set cm'"
    and d: "distinct (map snd cm)" and d': "distinct (map snd cm')"
  shows "fold (resolveEntry cmap li) cm m = fold (resolveEntry cmap li) cm' m"
proof (rule ext)
  fix a
  show "fold (resolveEntry cmap li) cm m a = fold (resolveEntry cmap li) cm' m a"
  proof (cases "a \<in> snd ` set cm")
    case True
    then obtain entry where entry: "entry \<in> set cm" and a: "a = snd entry"
      by (rule imageE)
    from entry entries have entry': "entry \<in> set cm'" by simp
    have "fold (resolveEntry cmap li) cm m (snd entry)
            = resolveEntry cmap li entry m (snd entry)"
      by (rule fold_resolveEntry_at [OF d entry])
    moreover have "fold (resolveEntry cmap li) cm' m (snd entry)
            = resolveEntry cmap li entry m (snd entry)"
      by (rule fold_resolveEntry_at [OF d' entry'])
    ultimately show ?thesis by (simp add: a)
  next
    case False
    then have "a \<notin> snd ` set cm'" using entries by simp
    from fold_resolveEntry_other [OF False] fold_resolveEntry_other [OF this]
    show ?thesis by simp
  qed
qed

lemma inheritance_permuted:
  assumes same: "sameContent s t"
    and d: "distinct (map snd (contractIdToContract s))"
    and d': "distinct (map snd (contractIdToContract t))"
  shows "rel_sum (\<lambda>e e'. True)
           (\<lambda>s' t'. sameContent s' t'
                     \<and> contractIdToContract s' = contractIdToContract s
                     \<and> contractIdToContract t' = contractIdToContract t)
           (applyContractsInheritance s) (applyContractsInheritance t)"
proof -
  let ?cm = "contractIdToContract s" and ?li = "contractIdToLinearizedBaseContractIds s"
  let ?cm' = "contractIdToContract t" and ?li' = "contractIdToLinearizedBaseContractIds t"
  from same have entries: "set ?cm = set ?cm'"
    and cm: "map_of ?cm = map_of ?cm'" and li: "map_of ?li = map_of ?li'"
    and store: "st_contracts s = st_contracts t"
    by (auto simp: sameContent_def dest: mset_eq_setD)
  have ok: "list_all (hasBaseIds ?li) ?cm = list_all (hasBaseIds ?li') ?cm'"
    by (simp add: list_all_iff entries hasBaseIds_cong [OF li])
  have "fold (resolveEntry ?cm ?li) ?cm (st_contracts s)
          = fold (resolveEntry ?cm ?li) ?cm' (st_contracts s)"
    by (rule fold_resolveEntry_permuted [OF entries d d'])
  then have fold: "fold (resolveEntry ?cm ?li) ?cm (st_contracts s)
          = fold (resolveEntry ?cm' ?li') ?cm' (st_contracts t)"
    by (simp add: resolveEntry_cong [OF cm li] store)
  show ?thesis
  proof (cases "list_all (hasBaseIds ?li) ?cm")
    case False
    with ok show ?thesis
      by (simp add: applyContractsInheritance_def applyInheritanceLoop_eq)
  next
    case True
    with ok have True': "list_all (hasBaseIds ?li') ?cm'" by simp
    from same fold have
      "sameContent
         (s\<lparr>st_contracts := fold (resolveEntry ?cm ?li) ?cm (st_contracts s)\<rparr>)
         (t\<lparr>st_contracts := fold (resolveEntry ?cm' ?li') ?cm' (st_contracts t)\<rparr>)"
      by (simp add: sameContent_def)
    with True True' show ?thesis
      by (simp add: applyContractsInheritance_def applyInheritanceLoop_eq)
  qed
qed

subsection \<open>The first two passes on sources in another order\<close>

lemma first_passes_permuted:
  assumes wf: "wellFormedSources (out_sources compilerOutput)"
    and perm: "mset (out_sources compilerOutput') = mset (out_sources compilerOutput)"
    and same: "\<And>entry. summaryOf E compilerOutput' compilerInput' entry
                        = summaryOf E compilerOutput compilerInput entry"
  shows "rel_sum (\<lambda>e e'. True)
           (\<lambda>s t. sameContent s t
                   \<and> distinct (map snd (contractIdToContract s))
                   \<and> distinct (map snd (contractIdToContract t)))
           (createSourcesModelFromAst E compilerOutput compilerInput emptyState)
           (createSourcesModelFromAst E compilerOutput' compilerInput' emptyState)"
proof -
  let ?P = "processSources E compilerOutput compilerInput (out_sources compilerOutput) emptyState"
  let ?P' = "processSources E compilerOutput' compilerInput' (out_sources compilerOutput')
               emptyState"
  have wf': "wellFormedSources (out_sources compilerOutput')"
    by (rule wellFormedSources_permuted [OF perm wf])
  have raises: "(\<exists>e. ?P' = Inl e) \<longleftrightarrow> (\<exists>e. ?P = Inl e)"
    by (rule first_pass_raises_permuted [OF wf perm same])
  show ?thesis
  proof (cases ?P)
    case (Inl e)
    with raises obtain e' where "?P' = Inl e'" by blast
    with Inl show ?thesis by (simp add: createSourcesModelFromAst_def)
  next
    case (Inr s)
    with raises obtain t where t: "?P' = Inr t" by (cases ?P') auto
    note eqs = first_pass_permuted [OF wf perm same Inr t]
    from first_pass_content [OF wf Inr] have k: "distinct (map fst (contractIdToContract s))"
      by blast
    from first_pass_content [OF wf' t] have k': "distinct (map fst (contractIdToContract t))"
      by blast
    have names: "distinct (map fst (out_sources compilerOutput))"
      "distinct (map fst (out_sources compilerOutput'))"
      using wf wf' by (simp_all add: wellFormedSources_def)
    have "registered ({} \<union> set (map fst (out_sources compilerOutput))) s"
      by (rule registered_processSources [OF registered_empty names(1) _ Inr]) simp
    then have d: "distinct (map snd (contractIdToContract s))"
      unfolding registered_def by (rule conjunct1)
    have "registered ({} \<union> set (map fst (out_sources compilerOutput'))) t"
      by (rule registered_processSources [OF registered_empty names(2) _ t]) simp
    then have d': "distinct (map snd (contractIdToContract t))"
      unfolding registered_def by (rule conjunct1)
    have "set (contractIdToContract s) = set (contractIdToContract t)"
      using map_of_inject_set [OF k k'] eqs(4) by simp
    moreover have "distinct (contractIdToContract s)" "distinct (contractIdToContract t)"
      using k k' by (simp_all add: distinct_map)
    ultimately have "mset (contractIdToContract s) = mset (contractIdToContract t)"
      by (simp add: set_eq_iff_mset_eq_distinct)
    with eqs have sc: "sameContent s t" by (simp add: sameContent_def)
    from inheritance_permuted [OF sc d d'] d d'
    have "rel_sum (\<lambda>e e'. True)
           (\<lambda>s t. sameContent s t
                   \<and> distinct (map snd (contractIdToContract s))
                   \<and> distinct (map snd (contractIdToContract t)))
           (applyContractsInheritance s) (applyContractsInheritance t)"
      by (cases "applyContractsInheritance s"; cases "applyContractsInheritance t") simp_all
    with Inr t show ?thesis by (simp add: createSourcesModelFromAst_def)
  qed
qed

subsection \<open>The bytecode pass on maps in another order\<close>

lemma contractOutputOf_cong:
  assumes outs: "\<forall>file. map_option map_of (map_of (out_contracts compilerOutput') file)
                         = map_option map_of (map_of (out_contracts compilerOutput) file)"
    and store: "st_contracts t = st_contracts s" and files: "st_files t = st_files s"
  shows "contractOutputOf compilerOutput' t contract = contractOutputOf compilerOutput s contract"
proof -
  have look: "\<And>fileName contractName.
      (case map_of (out_contracts compilerOutput') fileName of
         None \<Rightarrow> Inl ContractOutputUndefined
       | Some fileContracts \<Rightarrow>
           (case map_of fileContracts contractName of
              None \<Rightarrow> Inl ContractOutputUndefined
            | Some contractOutput \<Rightarrow> Inr contractOutput))
      = (case map_of (out_contracts compilerOutput) fileName of
           None \<Rightarrow> Inl ContractOutputUndefined
         | Some fileContracts \<Rightarrow>
             (case map_of fileContracts contractName of
                None \<Rightarrow> Inl ContractOutputUndefined
              | Some contractOutput \<Rightarrow> Inr contractOutput))"
  proof -
    fix fileName contractName
    let ?a' = "map_of (out_contracts compilerOutput') fileName"
    let ?a = "map_of (out_contracts compilerOutput) fileName"
    from outs have eq: "map_option map_of ?a' = map_option map_of ?a" by simp
    show "(case ?a' of
         None \<Rightarrow> Inl ContractOutputUndefined
       | Some fileContracts \<Rightarrow>
           (case map_of fileContracts contractName of
              None \<Rightarrow> Inl ContractOutputUndefined
            | Some contractOutput \<Rightarrow> Inr contractOutput))
      = (case ?a of
           None \<Rightarrow> Inl ContractOutputUndefined
         | Some fileContracts \<Rightarrow>
             (case map_of fileContracts contractName of
                None \<Rightarrow> Inl ContractOutputUndefined
              | Some contractOutput \<Rightarrow> Inr contractOutput))"
    proof (cases ?a')
      case None
      with eq have "?a = None" by simp
      with None show ?thesis by simp
    next
      case (Some entries')
      with eq obtain entries where "?a = Some entries" "map_of entries' = map_of entries"
        by (cases ?a) auto
      with Some show ?thesis by simp
    qed
  qed
  show ?thesis
    by (simp add: contractOutputOf_def store files look split: option.splits)
qed

lemma pushedBytecodes_cong:
  "map_of fileMap' = map_of fileMap \<Longrightarrow>
     pushedBytecodes E solcVersion fileMap' = pushedBytecodes E solcVersion fileMap"
  by (intro ext) (simp add: pushedBytecodes_def decodeEvmBytecode_def)

lemma decodeBytecodesLoop_files:
  "decodeBytecodesLoop E solcVersion compilerOutput contracts t bytecodes = Inr (s', result) \<Longrightarrow>
     st_files s' = st_files t"
proof (induction contracts arbitrary: t bytecodes)
  case Nil
  then show ?case by simp
next
  case (Cons h rest)
  from Cons.prems obtain contractOutput where
    out: "contractOutputOf compilerOutput t h = Inr contractOutput"
    by (cases "contractOutputOf compilerOutput t h") (simp_all add: decodeContract_output)
  let ?t = "customErrorsLoop E h (co_abi contractOutput) t"
  from Cons.prems out have
    "decodeBytecodesLoop E solcVersion compilerOutput rest ?t
       (bytecodes @ pushedBytecodes E solcVersion (fileIdToSourceFile t) h contractOutput)
     = Inr (s', result)"
    by (simp add: decodeContract_output)
  from Cons.IH [OF this] show ?case by simp
qed

lemma decoded_store_permuted:
  assumes run: "decodeBytecodes E solcVersion compilerOutput s = Inr (s1, bytecodes)"
    and run': "decodeBytecodes E solcVersion compilerOutput' t = Inr (t1, bytecodes')"
    and same: "sameContent s t"
    and outs: "\<forall>file. map_option map_of (map_of (out_contracts compilerOutput') file)
                         = map_option map_of (map_of (out_contracts compilerOutput) file)"
    and d: "distinct (map snd (contractIdToContract s))"
    and d': "distinct (map snd (contractIdToContract t))"
  shows "st_contracts t1 = st_contracts s1"
proof (rule ext)
  fix contract
  from same have store: "st_contracts t = st_contracts s" and files: "st_files t = st_files s"
    and entries: "set (contractIdToContract s) = set (contractIdToContract t)"
    by (auto simp: sameContent_def dest: mset_eq_setD)
  have out: "contractOutputOf compilerOutput' t contract
               = contractOutputOf compilerOutput s contract"
    by (rule contractOutputOf_cong [OF outs store files])
  from run have loop: "decodeBytecodesLoop E solcVersion compilerOutput
                         (map snd (contractIdToContract s)) s [] = Inr (s1, bytecodes)"
    by (simp add: decodeBytecodes_def)
  from run' have loop': "decodeBytecodesLoop E solcVersion compilerOutput'
                         (map snd (contractIdToContract t)) t [] = Inr (t1, bytecodes')"
    by (simp add: decodeBytecodes_def)
  note st = decodeBytecodesLoop_store [OF loop d, of contract]
  note st' = decodeBytecodesLoop_store [OF loop' d', of contract]
  have mem: "contract \<in> set (map snd (contractIdToContract t))
               \<longleftrightarrow> contract \<in> set (map snd (contractIdToContract s))"
    using entries by simp
  show "st_contracts t1 contract = st_contracts s1 contract"
  proof (cases "contract \<in> set (map snd (contractIdToContract s))")
    case False
    with st st' mem store show ?thesis by simp
  next
    case True
    with st obtain c contractOutput where
      a: "st_contracts s contract = Some c"
         "contractOutputOf compilerOutput s contract = Inr contractOutput"
         "st_contracts s1 contract
            = Some (c\<lparr>c_customErrors :=
                       c_customErrors c @ customErrorsOfAbi E (co_abi contractOutput)\<rparr>)"
      by blast
    from True mem st' obtain c' contractOutput' where
      b: "st_contracts t contract = Some c'"
         "contractOutputOf compilerOutput' t contract = Inr contractOutput'"
         "st_contracts t1 contract
            = Some (c'\<lparr>c_customErrors :=
                        c_customErrors c' @ customErrorsOfAbi E (co_abi contractOutput')\<rparr>)"
      by blast
    from a(1) b(1) store have "c' = c" by simp
    moreover from a(2) b(2) out have "contractOutput' = contractOutput" by simp
    ultimately show ?thesis using a(3) b(3) by simp
  qed
qed

lemma decode_permuted:
  assumes same: "sameContent s t"
    and outs: "\<forall>file. map_option map_of (map_of (out_contracts compilerOutput') file)
                         = map_option map_of (map_of (out_contracts compilerOutput) file)"
    and d: "distinct (map snd (contractIdToContract s))"
    and d': "distinct (map snd (contractIdToContract t))"
  shows "rel_sum (\<lambda>e e'. True)
           (\<lambda>r r'. st_files (fst r') = st_files (fst r)
                    \<and> st_contracts (fst r') = st_contracts (fst r)
                    \<and> mset (snd r') = mset (snd r))
           (decodeBytecodes E solcVersion compilerOutput s)
           (decodeBytecodes E solcVersion compilerOutput' t)"
proof -
  let ?f = "\<lambda>contract.
              map_sum id (pushedBytecodes E solcVersion (fileIdToSourceFile s) contract)
                (contractOutputOf compilerOutput s contract)"
  let ?f' = "\<lambda>contract.
              map_sum id (pushedBytecodes E solcVersion (fileIdToSourceFile t) contract)
                (contractOutputOf compilerOutput' t contract)"
  let ?xs = "map snd (contractIdToContract s)" and ?xs' = "map snd (contractIdToContract t)"
  let ?D = "decodeBytecodes E solcVersion compilerOutput s"
  let ?D' = "decodeBytecodes E solcVersion compilerOutput' t"
  from same have store: "st_contracts t = st_contracts s" and files: "st_files t = st_files s"
    and fm: "map_of (fileIdToSourceFile t) = map_of (fileIdToSourceFile s)"
    and perm: "mset ?xs = mset ?xs'"
    by (simp_all add: sameContent_def)
  have f: "?f' = ?f"
    by (simp add: fun_eq_iff contractOutputOf_cong [OF outs store files]
          pushedBytecodes_cong [OF fm])
  have A: "map_sum id snd ?D = map_sum id concat (collect (map ?f ?xs))"
    by (rule decodeBytecodes_collect)
  have "map_sum id snd ?D' = map_sum id concat (collect (map ?f' ?xs'))"
    by (rule decodeBytecodes_collect)
  then have B: "map_sum id snd ?D' = map_sum id concat (collect (map ?f ?xs'))"
    by (simp only: f)
  have raises: "(\<exists>e. collect (map ?f ?xs) = Inl e) \<longleftrightarrow> (\<exists>e. collect (map ?f ?xs') = Inl e)"
    by (rule collect_permuted [OF perm])
  show ?thesis
  proof (cases ?D)
    case (Inl e)
    with A have "\<exists>e. collect (map ?f ?xs) = Inl e"
      by (cases "collect (map ?f ?xs)") simp_all
    with raises obtain e' where "collect (map ?f ?xs') = Inl e'" by blast
    with B obtain e'' where "?D' = Inl e''" by (cases ?D') simp_all
    with Inl show ?thesis by simp
  next
    case (Inr r)
    obtain s1 bytecodes where r: "r = (s1, bytecodes)" by (cases r)
    from A Inr r obtain ys where ys: "collect (map ?f ?xs) = Inr ys" "bytecodes = concat ys"
      by (cases "collect (map ?f ?xs)") auto
    with raises obtain ys' where ys': "collect (map ?f ?xs') = Inr ys'"
      by (cases "collect (map ?f ?xs')") auto
    with B obtain r' where D': "?D' = Inr r'" and bs': "snd r' = concat ys'"
      by (cases ?D') auto
    obtain t1 bytecodes' where r': "r' = (t1, bytecodes')" by (cases r')
    have "ys = map (\<lambda>x. projr (?f x)) ?xs" using ys(1) by (rule collect_Inr_map)
    moreover have "ys' = map (\<lambda>x. projr (?f x)) ?xs'" using ys' by (rule collect_Inr_map)
    ultimately have "mset (concat ys') = mset (concat ys)"
      using mset_concat_map_permuted [OF perm, of "\<lambda>x. projr (?f x)"] by simp
    with ys(2) bs' r' have m: "mset bytecodes' = mset bytecodes" by simp
    from Inr r have run: "?D = Inr (s1, bytecodes)" by simp
    from D' r' have run': "?D' = Inr (t1, bytecodes')" by simp
    have c: "st_contracts t1 = st_contracts s1"
      by (rule decoded_store_permuted [OF run run' same outs d d'])
    from run have "st_files s1 = st_files s"
      unfolding decodeBytecodes_def by (rule decodeBytecodesLoop_files)
    moreover from run' have "st_files t1 = st_files t"
      unfolding decodeBytecodes_def by (rule decodeBytecodesLoop_files)
    ultimately have fl: "st_files t1 = st_files s1" using files by simp
    from run run' fl c m show ?thesis by simp
  qed
qed

text \<open>
  C8 (as amended). Take two compilations that differ only in the order in which the
  sources are enumerated and in the order of the keys of the contract outputs and of the
  input, with sources as a compiler gives them: no two have the same name or the same id,
  every \<^verbatim>\<open>src\<close> names the source that it is in, and no two contract definitions have the
  same id. Let the correction of the selectors depend on the files, on the contracts and on
  the bytecodes only, whatever the order of the bytecodes. Then either both builds raise,
  or both return, with the same files, the same contracts (their functions, ancestors and
  custom errors) and the same bytecodes; the list of the bytecodes is the same up to its
  order, which follows the order of the sources.
\<close>

theorem build_order_independent:
  assumes wf: "wellFormedSources (out_sources compilerOutput)"
    and perm: "mset (out_sources compilerOutput') = mset (out_sources compilerOutput)"
    and outs: "\<forall>fileName. map_option map_of (map_of (out_contracts compilerOutput') fileName)
                         = map_option map_of (map_of (out_contracts compilerOutput) fileName)"
    and inps: "map_of compilerInput' = map_of compilerInput"
    and sel: "\<forall>bytecodes bytecodes' s t.
                 mset bytecodes' = mset bytecodes \<and> st_files t = st_files s
                 \<and> st_contracts t = st_contracts s \<longrightarrow>
                 st_files (correctSelectors E bytecodes' compilerOutput' t)
                   = st_files (correctSelectors E bytecodes compilerOutput s)
                 \<and> st_contracts (correctSelectors E bytecodes' compilerOutput' t)
                     = st_contracts (correctSelectors E bytecodes compilerOutput s)"
  shows "rel_sum (\<lambda>e e'. True)
           (\<lambda>r r'. st_files (fst r') = st_files (fst r)
                    \<and> st_contracts (fst r') = st_contracts (fst r)
                    \<and> mset (snd r') = mset (snd r))
           (createModelsAndDecodeBytecodes E solcVersion compilerInput compilerOutput)
           (createModelsAndDecodeBytecodes E solcVersion compilerInput' compilerOutput')"
proof -
  let ?B = "createSourcesModelFromAst E compilerOutput compilerInput emptyState"
  let ?B' = "createSourcesModelFromAst E compilerOutput' compilerInput' emptyState"
  have same: "\<And>entry. summaryOf E compilerOutput' compilerInput' entry
                        = summaryOf E compilerOutput compilerInput entry"
    by (rule summaryOf_cong [OF outs inps])
  have R: "rel_sum (\<lambda>e e'. True)
             (\<lambda>s t. sameContent s t
                     \<and> distinct (map snd (contractIdToContract s))
                     \<and> distinct (map snd (contractIdToContract t))) ?B ?B'"
    by (rule first_passes_permuted [OF wf perm same])
  show ?thesis
  proof (cases ?B)
    case (Inl e)
    with R obtain e' where "?B' = Inl e'" by (cases ?B') simp_all
    with Inl show ?thesis by (simp add: createModelsAndDecodeBytecodes_def)
  next
    case (Inr s)
    with R obtain t where t: "?B' = Inr t" and sc: "sameContent s t"
      and d: "distinct (map snd (contractIdToContract s))"
      and d': "distinct (map snd (contractIdToContract t))"
      by (cases ?B') simp_all
    let ?D = "decodeBytecodes E solcVersion compilerOutput s"
    let ?D' = "decodeBytecodes E solcVersion compilerOutput' t"
    have D: "rel_sum (\<lambda>e e'. True)
           (\<lambda>r r'. st_files (fst r') = st_files (fst r)
                    \<and> st_contracts (fst r') = st_contracts (fst r)
                    \<and> mset (snd r') = mset (snd r)) ?D ?D'"
      by (rule decode_permuted [OF sc outs d d'])
    show ?thesis
    proof (cases ?D)
      case (Inl e)
      with D obtain e' where "?D' = Inl e'" by (cases ?D') simp_all
      with Inl Inr t show ?thesis by (simp add: createModelsAndDecodeBytecodes_def)
    next
      case r: (Inr r)
      with D obtain r' where r': "?D' = Inr r'"
        and eq: "st_files (fst r') = st_files (fst r)"
                "st_contracts (fst r') = st_contracts (fst r)"
                "mset (snd r') = mset (snd r)"
        by (cases ?D') simp_all
      from sel eq have
        "st_files (correctSelectors E (snd r') compilerOutput' (fst r'))
           = st_files (correctSelectors E (snd r) compilerOutput (fst r))
         \<and> st_contracts (correctSelectors E (snd r') compilerOutput' (fst r'))
             = st_contracts (correctSelectors E (snd r) compilerOutput (fst r))"
        by blast
      with eq(3) r r' Inr t show ?thesis
        by (simp add: createModelsAndDecodeBytecodes_def case_prod_beta)
    qed
  qed
qed

lemma two_sources_wellFormed: "wellFormedSources (out_sources twoSourcesOutput)"
  by code_simp

lemma two_sources_succeed:
  "succeeds (createModelsAndDecodeBytecodes sampleExt ''0.8.0'' sampleInput twoSourcesOutput)"
  by code_simp

lemma swapped_sources_ancestors:
  "builtAncestorsOf
     (createModelsAndDecodeBytecodes sampleExt ''0.8.0'' swappedInput swappedOutput) (''b.sol'', 0)
     = Some [(''b.sol'', 0), (''a.sol'', 2)]"
  by code_simp

theorem build_order_witness:
  "wellFormedSources (out_sources twoSourcesOutput)
   \<and> mset (out_sources swappedOutput) = mset (out_sources twoSourcesOutput)
   \<and> map_of swappedInput = map_of sampleInput
   \<and> succeeds (createModelsAndDecodeBytecodes sampleExt ''0.8.0'' sampleInput twoSourcesOutput)
   \<and> rel_sum (\<lambda>e e'. True)
        (\<lambda>r r'. st_files (fst r') = st_files (fst r)
                 \<and> st_contracts (fst r') = st_contracts (fst r)
                 \<and> mset (snd r') = mset (snd r))
        (createModelsAndDecodeBytecodes sampleExt ''0.8.0'' sampleInput twoSourcesOutput)
        (createModelsAndDecodeBytecodes sampleExt ''0.8.0'' swappedInput swappedOutput)"
proof -
  have perm: "mset (out_sources swappedOutput) = mset (out_sources twoSourcesOutput)"
    by (simp add: swappedOutput_def twoSourcesOutput_def)
  have outs: "\<forall>fileName. map_option map_of (map_of (out_contracts swappedOutput) fileName)
                = map_option map_of (map_of (out_contracts twoSourcesOutput) fileName)"
    by (auto simp: swappedOutput_def twoSourcesOutput_def fun_eq_iff)
  have inps: "map_of swappedInput = map_of sampleInput"
    by (auto simp: swappedInput_def sampleInput_def fun_eq_iff)
  have sel: "\<forall>bytecodes bytecodes' s t.
                 mset bytecodes' = mset bytecodes \<and> st_files t = st_files s
                 \<and> st_contracts t = st_contracts s \<longrightarrow>
                 st_files (correctSelectors sampleExt bytecodes' swappedOutput t)
                   = st_files (correctSelectors sampleExt bytecodes twoSourcesOutput s)
                 \<and> st_contracts (correctSelectors sampleExt bytecodes' swappedOutput t)
                     = st_contracts (correctSelectors sampleExt bytecodes twoSourcesOutput s)"
    by (simp add: sampleExt_def)
  from build_order_independent [OF two_sources_wellFormed perm outs inps sel, of "''0.8.0''"]
    two_sources_wellFormed perm inps two_sources_succeed
  show ?thesis by blast
qed

text \<open>
  The bytecodes come in the order in which the sources are enumerated; and when two
  contract definitions have the same id, the ancestors of a contract depend on the order
  of the sources.
\<close>

theorem build_order_counterexample:
  "bytecodeOwners
     (createModelsAndDecodeBytecodes sampleExt ''0.8.0'' sampleInput twoSourcesOutput)
     = Some [((''a.sol'', 0), True), ((''a.sol'', 0), False),
             ((''b.sol'', 0), True), ((''b.sol'', 0), False)]
   \<and> bytecodeOwners
       (createModelsAndDecodeBytecodes sampleExt ''0.8.0'' swappedInput swappedOutput)
       = Some [((''b.sol'', 0), True), ((''b.sol'', 0), False),
               ((''a.sol'', 0), True), ((''a.sol'', 0), False)]
   \<and> builtAncestorsOf
       (createModelsAndDecodeBytecodes sampleExt ''0.8.0'' sampleInput clashingOutput)
       (''a.sol'', 0) = Some [(''a.sol'', 0), (''b.sol'', 0)]
   \<and> builtAncestorsOf
       (createModelsAndDecodeBytecodes sampleExt ''0.8.0'' sampleInput swappedClashingOutput)
       (''a.sol'', 0) = Some [(''a.sol'', 0), (''a.sol'', 2)]"
  by code_simp

end
